theory Spec2Isabelle
  imports Complex_Main "HOL-Library.AList"
begin

section \<open>Numbers, vectors and the data model of src/edgeSelection.ts\<close>

text \<open>
  A JavaScript \<^verbatim>\<open>number\<close> is read in one of two ways. In the data the functions
  exchange (the coordinates, normals and angle of an edge, the options, a volume) a
  number is finite and is the real it denotes; where a function only compares such
  numbers or passes them on, its arithmetic is that of the reals. Where the result
  of a function depends on whether a number it computes is finite (the distances of
  \<^verbatim>\<open>selectByPoint\<close>, and \<^verbatim>\<open>extractEdges\<close> on a mesh that makes it read outside an
  array) a computed number is a \<open>jsnum\<close>, defined below. Vertex indices (entries of
  a \<^verbatim>\<open>Uint32Array\<close>) are natural numbers.
\<close>

type_synonym vec3 = "real \<times> real \<times> real"

subsection \<open>Numbers with infinities and NaN\<close>

text \<open>
  A \<open>jsnum\<close> is a finite number, \<^verbatim>\<open>Infinity\<close>, \<^verbatim>\<open>-Infinity\<close> or \<^verbatim>\<open>NaN\<close>. An
  operation on finite numbers gives the exact result when that lies strictly between
  \<open>-overflowBound\<close> and \<open>overflowBound\<close>, and the infinity of its sign otherwise:
  \<open>overflowBound = 2^1024 - 2^970\<close> is the least magnitude that rounding to the
  nearest double takes to an infinity. The special values follow IEEE 754. Rounding
  below the bound, underflow and the sign of zero are not modelled; a zero divisor
  is taken as \<open>+0\<close>.
\<close>

datatype jsnum = Fin real | PosInf | NegInf | NaN

definition overflowBound :: real where
  "overflowBound = 2 ^ 1024 - 2 ^ 970"

definition fl :: "real \<Rightarrow> jsnum" where
  "fl x = (if overflowBound \<le> x then PosInf
           else if x \<le> - overflowBound then NegInf
           else Fin x)"

fun js_neg :: "jsnum \<Rightarrow> jsnum" where
  "js_neg (Fin x) = Fin (- x)"
| "js_neg PosInf = NegInf"
| "js_neg NegInf = PosInf"
| "js_neg NaN = NaN"

fun js_add :: "jsnum \<Rightarrow> jsnum \<Rightarrow> jsnum" where
  "js_add (Fin x) (Fin y) = fl (x + y)"
| "js_add NaN b = NaN"
| "js_add a NaN = NaN"
| "js_add PosInf NegInf = NaN"
| "js_add NegInf PosInf = NaN"
| "js_add PosInf b = PosInf"
| "js_add a PosInf = PosInf"
| "js_add NegInf b = NegInf"
| "js_add a NegInf = NegInf"

definition js_sub :: "jsnum \<Rightarrow> jsnum \<Rightarrow> jsnum" where
  "js_sub a b = js_add a (js_neg b)"

text \<open>An infinity times or divided by a finite number \<open>y\<close>.\<close>

definition scaleInf :: "jsnum \<Rightarrow> real \<Rightarrow> jsnum" where
  "scaleInf i y = (if y = 0 then NaN else if 0 < y then i else js_neg i)"

fun js_mul :: "jsnum \<Rightarrow> jsnum \<Rightarrow> jsnum" where
  "js_mul (Fin x) (Fin y) = fl (x * y)"
| "js_mul NaN b = NaN"
| "js_mul a NaN = NaN"
| "js_mul (Fin x) b = scaleInf b x"
| "js_mul a (Fin y) = scaleInf a y"
| "js_mul PosInf b = b"
| "js_mul NegInf b = js_neg b"

fun js_div :: "jsnum \<Rightarrow> jsnum \<Rightarrow> jsnum" where
  "js_div (Fin x) (Fin y) =
     (if y = 0 then (if x = 0 then NaN else if 0 < x then PosInf else NegInf)
      else fl (x / y))"
| "js_div NaN b = NaN"
| "js_div a NaN = NaN"
| "js_div (Fin x) b = Fin 0"
| "js_div a (Fin y) = (if 0 \<le> y then a else js_neg a)"
| "js_div a b = NaN"

fun js_sqrt :: "jsnum \<Rightarrow> jsnum" where
  "js_sqrt (Fin x) = (if x < 0 then NaN else Fin (sqrt x))"
| "js_sqrt PosInf = PosInf"
| "js_sqrt NegInf = NaN"
| "js_sqrt NaN = NaN"

text \<open>\<^verbatim>\<open>a < b\<close> and \<^verbatim>\<open>a <= b\<close>: false when an operand is NaN.\<close>

fun js_lt :: "jsnum \<Rightarrow> jsnum \<Rightarrow> bool" where
  "js_lt (Fin x) (Fin y) = (x < y)"
| "js_lt NaN b = False"
| "js_lt a NaN = False"
| "js_lt a NegInf = False"
| "js_lt PosInf b = False"
| "js_lt a b = True"

fun js_le :: "jsnum \<Rightarrow> jsnum \<Rightarrow> bool" where
  "js_le (Fin x) (Fin y) = (x \<le> y)"
| "js_le NaN b = False"
| "js_le a NaN = False"
| "js_le NegInf b = True"
| "js_le a PosInf = True"
| "js_le a b = False"

text \<open>\<^verbatim>\<open>Math.min\<close>, \<^verbatim>\<open>Math.max\<close> and \<^verbatim>\<open>Math.acos\<close>.\<close>

definition js_min :: "jsnum \<Rightarrow> jsnum \<Rightarrow> jsnum" where
  "js_min a b = (if a = NaN \<or> b = NaN then NaN else if js_le a b then a else b)"

definition js_max :: "jsnum \<Rightarrow> jsnum \<Rightarrow> jsnum" where
  "js_max a b = (if a = NaN \<or> b = NaN then NaN else if js_le a b then b else a)"

fun js_acos :: "jsnum \<Rightarrow> jsnum" where
  "js_acos (Fin x) = (if - 1 \<le> x \<and> x \<le> 1 then Fin (arccos x) else NaN)"
| "js_acos a = NaN"

type_synonym jsvec = "jsnum \<times> jsnum \<times> jsnum"

text \<open>A vector of finite numbers as a vector of \<open>jsnum\<close>.\<close>

definition finVec :: "vec3 \<Rightarrow> jsvec" where
  "finVec v = (case v of (x, y, z) \<Rightarrow> (Fin x, Fin y, Fin z))"

record MeshEdge =
  v0 :: nat
  v1 :: nat
  p0 :: vec3
  p1 :: vec3
  n0 :: vec3
  n1 :: vec3
  dihedralAngle :: real

record PointEdgeSelection =
  point :: vec3
  maxDistance :: "real option"

record AngleEdgeSelection =
  minAngle :: real

datatype EdgeSelection = Point PointEdgeSelection | Angle AngleEdgeSelection

section \<open>Edge selection\<close>

text \<open>
  \<^verbatim>\<open>pointToSegmentDistance(p, a, b)\<close>, edgeSelection.ts lines 200-232. A sum of three
  products is evaluated from the left.
\<close>

definition pointToSegmentDistance :: "jsvec \<Rightarrow> jsvec \<Rightarrow> jsvec \<Rightarrow> jsnum" where
  "pointToSegmentDistance p a b =
     (case p of (px, py, pz) \<Rightarrow> case a of (ax, ay, az) \<Rightarrow> case b of (bx, by, bz) \<Rightarrow>
       let abx = js_sub bx ax; aby = js_sub by ay; abz = js_sub bz az;
           apx = js_sub px ax; apy = js_sub py ay; apz = js_sub pz az;
           abLenSq = js_add (js_add (js_mul abx abx) (js_mul aby aby)) (js_mul abz abz)
       in if js_lt abLenSq (Fin (1 / 10 ^ 12))
          then js_sqrt (js_add (js_add (js_mul apx apx) (js_mul apy apy)) (js_mul apz apz))
          else
            let t = js_max (Fin 0) (js_min (Fin 1)
                      (js_div (js_add (js_add (js_mul apx abx) (js_mul apy aby)) (js_mul apz abz))
                         abLenSq));
                cx = js_add ax (js_mul t abx);
                cy = js_add ay (js_mul t aby);
                cz = js_add az (js_mul t abz);
                dx = js_sub px cx; dy = js_sub py cy; dz = js_sub pz cz
            in js_sqrt (js_add (js_add (js_mul dx dx) (js_mul dy dy)) (js_mul dz dz)))"

text \<open>
  The loop of \<^verbatim>\<open>selectByPoint\<close> (lines 166-177): the state is the pair
  \<^verbatim>\<open>(closestEdge, closestDist)\<close>, with \<open>None\<close> for \<^verbatim>\<open>null\<close>; \<open>p\<close> is the query
  point.
\<close>

fun selectByPoint_loop ::
  "jsvec \<Rightarrow> jsnum \<Rightarrow> MeshEdge list \<Rightarrow> MeshEdge option \<times> jsnum \<Rightarrow> MeshEdge option \<times> jsnum"
where
  "selectByPoint_loop p maxDist [] st = st"
| "selectByPoint_loop p maxDist (edge # edges) (closestEdge, closestDist) =
     (let dist = pointToSegmentDistance p (finVec (p0 edge)) (finVec (p1 edge))
      in if js_lt dist closestDist \<and> js_le dist maxDist
         then selectByPoint_loop p maxDist edges (Some edge, dist)
         else selectByPoint_loop p maxDist edges (closestEdge, closestDist))"

definition selectByPoint :: "MeshEdge list \<Rightarrow> PointEdgeSelection \<Rightarrow> MeshEdge list" where
  "selectByPoint edges selection =
     (let maxDist = (case maxDistance selection of Some d \<Rightarrow> Fin d | None \<Rightarrow> PosInf)
      in case fst (selectByPoint_loop (finVec (point selection)) maxDist edges (None, PosInf)) of
           Some closestEdge \<Rightarrow> [closestEdge]
         | None \<Rightarrow> [])"

text \<open>\<^verbatim>\<open>selectByAngle\<close>, lines 189-195.\<close>

definition selectByAngle :: "MeshEdge list \<Rightarrow> AngleEdgeSelection \<Rightarrow> MeshEdge list" where
  "selectByAngle edges selection =
     (let threshold = 180 - minAngle selection
      in filter (\<lambda>edge. dihedralAngle edge \<le> threshold) edges)"

text \<open>\<^verbatim>\<open>selectEdges\<close>, lines 148-154.\<close>

fun selectEdges :: "MeshEdge list \<Rightarrow> EdgeSelection \<Rightarrow> MeshEdge list" where
  "selectEdges edges (Point selection) = selectByPoint edges selection"
| "selectEdges edges (Angle selection) = selectByAngle edges selection"

section \<open>Edge extraction\<close>

text \<open>Line numbers in this section and the one before are lines of \<^verbatim>\<open>src/edgeSelection.ts\<close>.\<close>

text \<open>
  The mesh a solid hands out (\<^verbatim>\<open>mf.getMesh()\<close>): the flat index array, the flat
  property buffer and the number of properties per vertex.
\<close>

record Mesh =
  triVerts :: "nat list"
  vertProperties :: "real list"
  numProp :: nat

text \<open>
  A read past the end of a typed array is \<^verbatim>\<open>undefined\<close> in the source and every
  number computed from it is NaN; neither is a value of this model, where such a
  read (\<open>xs ! i\<close> with \<open>i \<ge> length xs\<close>) is left unspecified. \<open>mesh_ok\<close> says
  that no read of \<^verbatim>\<open>extractEdges\<close> leaves its array: the index array holds whole
  triangles and every index addresses three stored coordinates. The theorems about
  \<^verbatim>\<open>extractEdges\<close> are stated for such meshes.
\<close>

definition mesh_ok :: "Mesh \<Rightarrow> bool" where
  "mesh_ok m =
     (length (triVerts m) mod 3 = 0 \<and>
      list_all (\<lambda>idx. idx * numProp m + 2 < length (vertProperties m)) (triVerts m))"

text \<open>One element of an adjacency list: \<^verbatim>\<open>{ tri: number; normal: [number, number, number] }\<close>.\<close>

record AdjTri =
  tri :: nat
  normal :: vec3

text \<open>
  \<^verbatim>\<open>edgeToTris\<close> is a \<^verbatim>\<open>Map\<close> from key strings to adjacency lists. A JavaScript
  \<^verbatim>\<open>Map\<close> iterates in the order in which its keys were first inserted, so it is an
  association list: \<^verbatim>\<open>has\<close>/\<^verbatim>\<open>get\<close> is \<open>map_of\<close>, and \<^verbatim>\<open>set\<close> is
  \<open>AList.update\<close>, which replaces the value of a key in place and appends a new key.
\<close>

type_synonym EdgeMap = "(string \<times> AdjTri list) list"

text \<open>\<^verbatim>\<open>getVertex\<close>, lines 55-62.\<close>

definition getVertex :: "Mesh \<Rightarrow> nat \<Rightarrow> vec3" where
  "getVertex m idx =
     (let offset = idx * numProp m
      in (vertProperties m ! offset,
          vertProperties m ! (offset + 1),
          vertProperties m ! (offset + 2)))"

text \<open>\<^verbatim>\<open>computeNormal\<close>, lines 64-82.\<close>

definition computeNormal :: "vec3 \<Rightarrow> vec3 \<Rightarrow> vec3 \<Rightarrow> vec3" where
  "computeNormal a b c =
     (case a of (ax, ay, az) \<Rightarrow> case b of (bx, by, bz) \<Rightarrow> case c of (cx, cy, cz) \<Rightarrow>
       let e1x = bx - ax; e1y = by - ay; e1z = bz - az;
           e2x = cx - ax; e2y = cy - ay; e2z = cz - az;
           nx = e1y * e2z - e1z * e2y;
           ny = e1z * e2x - e1x * e2z;
           nz = e1x * e2y - e1y * e2x;
           len = sqrt (nx * nx + ny * ny + nz * nz)
       in if len > 1 / 10 ^ 12 then (nx / len, ny / len, nz / len) else (nx, ny, nz))"

subsection \<open>Key strings\<close>

text \<open>
  The template literal \<^verbatim>\<open>`${a}_${b}`\<close> writes the two indices in decimal (an index is
  below \<open>2^32\<close>, so no exponent notation appears). Characters are given by their codes:
  48 to 57 are the digits, 95 is the underscore.
\<close>

definition digit_char :: "nat \<Rightarrow> char" where
  "digit_char d = char_of (48 + d)"

fun string_of_nat :: "nat \<Rightarrow> string" where
  "string_of_nat n =
     (if n < 10 then [digit_char n]
      else string_of_nat (n div 10) @ [digit_char (n mod 10)])"

declare string_of_nat.simps [simp del]

text \<open>The key of line 103.\<close>

definition edgeKey :: "nat \<Rightarrow> nat \<Rightarrow> string" where
  "edgeKey a b =
     (if a < b then string_of_nat a @ ''_'' @ string_of_nat b
      else string_of_nat b @ ''_'' @ string_of_nat a)"

text \<open>\<^verbatim>\<open>s.split(c)\<close> for a separator of one character.\<close>

fun splitOn :: "char \<Rightarrow> string \<Rightarrow> string list" where
  "splitOn c [] = [[]]"
| "splitOn c (x # xs) =
     (if x = c then [] # splitOn c xs
      else (case splitOn c xs of
              w # ws \<Rightarrow> (x # w) # ws
            | [] \<Rightarrow> [[x]]))"

text \<open>
  \<^verbatim>\<open>parseInt\<close> on a string that begins with decimal digits is the value of its longest
  prefix of digits; on a string with no digit in front it is NaN, here \<open>None\<close>.
  (White space, a sign or a \<^verbatim>\<open>0x\<close> prefix, which \<^verbatim>\<open>parseInt\<close> would also read, do
  not occur in a key.)
\<close>

definition is_digit :: "char \<Rightarrow> bool" where
  "is_digit c = (48 \<le> (of_char c :: nat) \<and> (of_char c :: nat) \<le> 57)"

definition digit_val :: "char \<Rightarrow> nat" where
  "digit_val c = of_char c - 48"

definition parseInt :: "string \<Rightarrow> nat option" where
  "parseInt s =
     (let ds = takeWhile is_digit s
      in if ds = [] then None
         else Some (foldl (\<lambda>acc c. acc * 10 + digit_val c) 0 ds))"

subsection \<open>Building the map (lines 85-109)\<close>

text \<open>
  Lines 104-107: \<^verbatim>\<open>if (!has(key)) set(key, []); get(key)!.push(entry)\<close>. The \<open>None\<close>
  branch of the second lookup is the source's non-null assertion; the key was just
  set, so it is never taken.
\<close>

definition addToMap :: "string \<Rightarrow> AdjTri \<Rightarrow> EdgeMap \<Rightarrow> EdgeMap" where
  "addToMap key entry edgeToTris =
     (let m1 = (if map_of edgeToTris key = None then AList.update key [] edgeToTris
                else edgeToTris)
      in case map_of m1 key of
           Some tris \<Rightarrow> AList.update key (tris @ [entry]) m1
         | None \<Rightarrow> m1)"

text \<open>The body of the loop over triangles, for triangle \<open>t\<close>.\<close>

definition processTriangle :: "Mesh \<Rightarrow> EdgeMap \<Rightarrow> nat \<Rightarrow> EdgeMap" where
  "processTriangle m edgeToTris t =
     (let i0 = triVerts m ! (t * 3);
          i1 = triVerts m ! (t * 3 + 1);
          i2 = triVerts m ! (t * 3 + 2);
          nrm = computeNormal (getVertex m i0) (getVertex m i1) (getVertex m i2);
          edges = [(i0, i1), (i1, i2), (i2, i0)]
      in foldl (\<lambda>acc (a, b). addToMap (edgeKey a b) \<lparr>tri = t, normal = nrm\<rparr> acc)
           edgeToTris edges)"

text \<open>
  \<^verbatim>\<open>numTris = triVerts.length / 3\<close> is a quotient of numbers; the integers \<open>t\<close> with
  \<^verbatim>\<open>t < numTris\<close> are those below the quotient rounded up.
\<close>

definition numTris :: "Mesh \<Rightarrow> nat" where
  "numTris m = (length (triVerts m) + 2) div 3"

definition buildEdgeToTris :: "Mesh \<Rightarrow> EdgeMap" where
  "buildEdgeToTris m = foldl (processTriangle m) [] [0..<numTris m]"

subsection \<open>Reading the edges off the map (lines 112-142)\<close>

text \<open>
  The body of the second loop: no edge for an adjacency list that does not have
  exactly two entries, one edge otherwise. The branches in which the key does not
  split into two parts or a part does not parse stand for NaN indices; lemma
  \<open>edgeFromEntry_edgeKey\<close> below shows that no key of the map reaches them.
\<close>

definition edgeFromEntry :: "Mesh \<Rightarrow> string \<times> AdjTri list \<Rightarrow> MeshEdge list" where
  "edgeFromEntry m entry =
     (case entry of (key, tris) \<Rightarrow>
        if length tris \<noteq> 2 then []
        else (case splitOn (CHR ''_'') key of
                aStr # bStr # _ \<Rightarrow>
                  (case (parseInt aStr, parseInt bStr) of
                     (Some a, Some b) \<Rightarrow>
                       (case normal (tris ! 0) of (n0x, n0y, n0z) \<Rightarrow>
                        case normal (tris ! 1) of (n1x, n1y, n1z) \<Rightarrow>
                          let dot = n0x * n1x + n0y * n1y + n0z * n1z;
                              clampedDot = max (- 1) (min 1 dot)
                          in [\<lparr>v0 = a, v1 = b,
                               p0 = getVertex m a, p1 = getVertex m b,
                               n0 = normal (tris ! 0), n1 = normal (tris ! 1),
                               dihedralAngle = arccos clampedDot * (180 / pi)\<rparr>])
                   | _ \<Rightarrow> [])
              | _ \<Rightarrow> []))"

text \<open>
  \<^verbatim>\<open>extractEdges\<close>, lines 46-143, as a function of the mesh that its first line reads
  from the solid; a caller in this development passes \<open>getMesh K mf\<close>.
\<close>

definition extractEdges :: "Mesh \<Rightarrow> MeshEdge list" where
  "extractEdges m = concat (map (edgeFromEntry m) (buildEdgeToTris m))"

section \<open>The CSG kernel\<close>

text \<open>
  The solids and their operations belong to the external kernel (manifold-3d). A solid
  is a value of an arbitrary type \<open>'s\<close>, never mutated; the kernel is the record of
  the operations the sources call: the static constructors of \<^verbatim>\<open>ManifoldStatic\<close>
  (\<^verbatim>\<open>hull\<close> is \<open>hull_solids\<close> on a list of solids and \<open>hull_points\<close> on a list
  of points; \<^verbatim>\<open>union\<close> is \<open>union_all\<close>) and the methods of a solid. Nothing is
  assumed about what they compute, and they are taken to return (a failure inside
  the kernel is not trapped by the sources and is not modelled). An optional
  argument is an \<open>option\<close>.
\<close>

record 's kernel =
  sphere :: "real \<Rightarrow> real option \<Rightarrow> 's"
  hull_solids :: "'s list \<Rightarrow> 's"
  hull_points :: "vec3 list \<Rightarrow> 's"
  union_all :: "'s list \<Rightarrow> 's"
  translate :: "'s \<Rightarrow> vec3 \<Rightarrow> 's"
  subtract :: "'s \<Rightarrow> 's \<Rightarrow> 's"
  volume :: "'s \<Rightarrow> real"
  getMesh :: "'s \<Rightarrow> Mesh"

text \<open>A thrown \<^verbatim>\<open>Error\<close> with its message.\<close>

datatype error = Error string

section \<open>The fillet orchestrator\<close>

text \<open>
  The source is \<^verbatim>\<open>src/unnamed/part_000\<close>, the module the others import as
  \<^verbatim>\<open>./fillet\<close>; line numbers in this section are its lines.
\<close>

record FilletOptions =
  radius :: real
  selection :: EdgeSelection
  segments :: "real option"

text \<open>\<^verbatim>\<open>createFilletCuttingTool\<close>, lines 97-160; \<open>None\<close> is \<^verbatim>\<open>null\<close>.\<close>

definition createFilletCuttingTool ::
  "'s kernel \<Rightarrow> MeshEdge \<Rightarrow> real \<Rightarrow> real \<Rightarrow> 's option"
where
  "createFilletCuttingTool K edge r segs =
     (case p0 edge of (x0, y0, z0) \<Rightarrow> case p1 edge of (x1, y1, z1) \<Rightarrow>
       let ex = x1 - x0; ey = y1 - y0; ez = z1 - z0;
           edgeLen = sqrt (ex * ex + ey * ey + ez * ez)
       in if edgeLen < 1 / 10 ^ 9 then None
          else
            (case n0 edge of (n0x, n0y, n0z) \<Rightarrow> case n1 edge of (n1x, n1y, n1z) \<Rightarrow>
              let dx = ex / edgeLen; dy = ey / edgeLen; dz = ez / edgeLen;
                  ext = r * (1 / 10);
                  tubeStart = (x0 - n0x * r - n1x * r - dx * ext,
                               y0 - n0y * r - n1y * r - dy * ext,
                               z0 - n0z * r - n1z * r - dz * ext);
                  tubeEnd = (x1 - n0x * r - n1x * r + dx * ext,
                             y1 - n0y * r - n1y * r + dy * ext,
                             z1 - n0z * r - n1z * r + dz * ext);
                  sphere0 = translate K (sphere K r (Some segs)) tubeStart;
                  sphere1 = translate K (sphere K r (Some segs)) tubeEnd;
                  tube = hull_solids K [sphere0, sphere1];
                  wedgeDepth = r * (11 / 10);
                  sX = x0 - dx * ext; sY = y0 - dy * ext; sZ = z0 - dz * ext;
                  eX = x1 + dx * ext; eY = y1 + dy * ext; eZ = z1 + dz * ext;
                  wedgePoints =
                    [(sX, sY, sZ),
                     (sX - n0x * wedgeDepth, sY - n0y * wedgeDepth, sZ - n0z * wedgeDepth),
                     (sX - n1x * wedgeDepth, sY - n1y * wedgeDepth, sZ - n1z * wedgeDepth),
                     (eX, eY, eZ),
                     (eX - n0x * wedgeDepth, eY - n0y * wedgeDepth, eZ - n0z * wedgeDepth),
                     (eX - n1x * wedgeDepth, eY - n1y * wedgeDepth, eZ - n1z * wedgeDepth)];
                  wedge = hull_points K wedgePoints
              in Some (subtract K wedge tube)))"

text \<open>
  The first loop of \<^verbatim>\<open>filletWithManifold\<close> (lines 71-80): the edges still to visit
  and the array \<^verbatim>\<open>cuttingTools\<close> built so far.
\<close>

fun collectTools :: "'s kernel \<Rightarrow> real \<Rightarrow> real \<Rightarrow> MeshEdge list \<Rightarrow> 's list \<Rightarrow> 's list" where
  "collectTools K r segs [] cuttingTools = cuttingTools"
| "collectTools K r segs (edge # edges) cuttingTools =
     (if dihedralAngle edge > 5 \<and> dihedralAngle edge < 175
      then (case createFilletCuttingTool K edge r segs of
              Some tool \<Rightarrow>
                if volume K tool > 1 / 10 ^ 9
                then collectTools K r segs edges (cuttingTools @ [tool])
                else collectTools K r segs edges cuttingTools
            | None \<Rightarrow> collectTools K r segs edges cuttingTools)
      else collectTools K r segs edges cuttingTools)"

text \<open>The second loop (lines 86-88): \<^verbatim>\<open>result = result.subtract(tool)\<close> for each tool in turn.\<close>

fun subtractTools :: "'s kernel \<Rightarrow> 's \<Rightarrow> 's list \<Rightarrow> 's" where
  "subtractTools K result [] = result"
| "subtractTools K result (tool # tools) = subtractTools K (subtract K result tool) tools"

text \<open>
  \<^verbatim>\<open>filletWithManifold\<close>, lines 40-92. The result is the thrown error or the returned
  solid. Console output is not modelled.
\<close>

definition filletWithManifold :: "'s kernel \<Rightarrow> 's \<Rightarrow> FilletOptions \<Rightarrow> error + 's" where
  "filletWithManifold K mf options =
     (let r = radius options;
          segs = (case segments options of Some n \<Rightarrow> n | None \<Rightarrow> 16)
      in if r \<le> 0 then Inl (Error ''Fillet radius must be positive'')
         else
           let allEdges = extractEdges (getMesh K mf)
           in if length allEdges = 0 then Inr mf
              else
                let selectedEdges = selectEdges allEdges (selection options)
                in if length selectedEdges = 0 then Inr mf
                   else
                     let cuttingTools = collectTools K r segs selectedEdges []
                     in if length cuttingTools > 0
                        then Inr (subtractTools K mf cuttingTools)
                        else Inr mf)"

subsection \<open>The order of the work\<close>

text \<open>
  The same function with a log of the work it does, to state what has happened when
  it throws. A step is a call that \<^verbatim>\<open>filletWithManifold\<close> makes: \<^verbatim>\<open>extractEdges(mf)\<close>
  (which reads \<^verbatim>\<open>mf.getMesh()\<close>), \<^verbatim>\<open>selectEdges(allEdges, selection)\<close>,
  \<^verbatim>\<open>createFilletCuttingTool(Manifold, edge, radius, segments)\<close>, \<^verbatim>\<open>tool.volume()\<close>
  and \<^verbatim>\<open>result.subtract(tool)\<close>. Each is appended to the log at the point of the
  source where it is called; \<^verbatim>\<open>tool && tool.volume() > 1e-9\<close> does not call
  \<^verbatim>\<open>volume\<close> when the tool is \<^verbatim>\<open>null\<close>.
\<close>

datatype 's work =
    CallExtractEdges 's
  | CallSelectEdges "MeshEdge list" EdgeSelection
  | CallCreateTool MeshEdge
  | CallVolume 's
  | CallSubtract 's 's

text \<open>The first loop (lines 71-80) and the second (lines 86-88), with the log.\<close>

fun collectToolsLogged ::
  "'s kernel \<Rightarrow> real \<Rightarrow> real \<Rightarrow> MeshEdge list \<Rightarrow> 's work list \<times> 's list \<Rightarrow> 's work list \<times> 's list"
where
  "collectToolsLogged K r segs [] (steps, cuttingTools) = (steps, cuttingTools)"
| "collectToolsLogged K r segs (edge # edges) (steps, cuttingTools) =
     (if dihedralAngle edge > 5 \<and> dihedralAngle edge < 175
      then (case createFilletCuttingTool K edge r segs of
              Some tool \<Rightarrow>
                if volume K tool > 1 / 10 ^ 9
                then collectToolsLogged K r segs edges
                       (steps @ [CallCreateTool edge, CallVolume tool], cuttingTools @ [tool])
                else collectToolsLogged K r segs edges
                       (steps @ [CallCreateTool edge, CallVolume tool], cuttingTools)
            | None \<Rightarrow> collectToolsLogged K r segs edges (steps @ [CallCreateTool edge], cuttingTools))
      else collectToolsLogged K r segs edges (steps, cuttingTools))"

fun subtractToolsLogged :: "'s kernel \<Rightarrow> 's work list \<times> 's \<Rightarrow> 's list \<Rightarrow> 's work list \<times> 's" where
  "subtractToolsLogged K (steps, result) [] = (steps, result)"
| "subtractToolsLogged K (steps, result) (tool # tools) =
     subtractToolsLogged K (steps @ [CallSubtract result tool], subtract K result tool) tools"

text \<open>\<^verbatim>\<open>filletWithManifold\<close>, lines 40-92, with the log of the steps taken.\<close>

definition filletWithManifoldLogged ::
  "'s kernel \<Rightarrow> 's \<Rightarrow> FilletOptions \<Rightarrow> 's work list \<times> (error + 's)"
where
  "filletWithManifoldLogged K mf options =
     (let r = radius options;
          segs = (case segments options of Some n \<Rightarrow> n | None \<Rightarrow> 16)
      in if r \<le> 0 then ([], Inl (Error ''Fillet radius must be positive''))
         else
           let allEdges = extractEdges (getMesh K mf);
               steps1 = [CallExtractEdges mf]
           in if length allEdges = 0 then (steps1, Inr mf)
              else
                let selectedEdges = selectEdges allEdges (selection options);
                    steps2 = steps1 @ [CallSelectEdges allEdges (selection options)]
                in if length selectedEdges = 0 then (steps2, Inr mf)
                   else
                     (case collectToolsLogged K r segs selectedEdges (steps2, []) of
                        (steps3, cuttingTools) \<Rightarrow>
                          if length cuttingTools > 0
                          then (case subtractToolsLogged K (steps3, mf) cuttingTools of
                                  (steps4, result) \<Rightarrow> (steps4, Inr result))
                          else (steps3, Inr mf)))"

section \<open>Tubes along a path\<close>

text \<open>
  The source is the last module of \<^verbatim>\<open>src/unnamed/part_002\<close>, imported by the
  others as \<^verbatim>\<open>./pipeAlongPath\<close>.
\<close>

text \<open>\<^verbatim>\<open>normalize\<close>, at the end of the file.\<close>

definition normalize :: "vec3 \<Rightarrow> vec3" where
  "normalize v =
     (case v of (x, y, z) \<Rightarrow>
        let len = sqrt (x * x + y * y + z * z)
        in if len < 1 / 10 ^ 12 then (1, 0, 0) else (x / len, y / len, z / len))"

text \<open>
  \<^verbatim>\<open>pipeAlongPath\<close>: the spheres of the first loop, the hulls of the second (for
  \<open>i\<close> from 0 while \<^verbatim>\<open>i < path.length - 1\<close>; the source's array \<^verbatim>\<open>segments_\<close> is
  \<open>tubeSegments\<close>), and the union unless there is one segment only.
\<close>

definition pipeAlongPath ::
  "'s kernel \<Rightarrow> vec3 list \<Rightarrow> real \<Rightarrow> real option \<Rightarrow> error + 's"
where
  "pipeAlongPath K path r segs =
     (if length path < 2 then Inl (Error ''Path must have at least 2 points'')
      else
        let spheres = map (\<lambda>p. translate K (sphere K r segs) p) path;
            tubeSegments = map (\<lambda>i. hull_solids K [spheres ! i, spheres ! (i + 1)])
                          [0..<length path - 1]
        in if length tubeSegments = 1 then Inr (tubeSegments ! 0)
           else Inr (union_all K tubeSegments))"

text \<open>
  The array \<^verbatim>\<open>extendedPath\<close> of \<^verbatim>\<open>pipeAlongPathExtended\<close>, for a path of at least
  two points; \<^verbatim>\<open>extensionFactor\<close> is optional with default 0.1.
\<close>

definition extendedPath :: "vec3 list \<Rightarrow> real \<Rightarrow> real option \<Rightarrow> vec3 list" where
  "extendedPath path r extensionFactor =
     (case path ! 0 of (sx, sy, sz) \<Rightarrow>
      case path ! 1 of (ax, ay, az) \<Rightarrow>
      case path ! (length path - 1) of (ex, ey, ez) \<Rightarrow>
      case path ! (length path - 2) of (bx, by, bz) \<Rightarrow>
      case normalize (sx - ax, sy - ay, sz - az) of (sdx, sdy, sdz) \<Rightarrow>
      case normalize (ex - bx, ey - by, ez - bz) of (edx, edy, edz) \<Rightarrow>
        let ext = r * (case extensionFactor of Some f \<Rightarrow> f | None \<Rightarrow> 1 / 10)
        in [(sx + sdx * ext, sy + sdy * ext, sz + sdz * ext)] @ path @
           [(ex + edx * ext, ey + edy * ext, ez + edz * ext)])"

text \<open>\<^verbatim>\<open>pipeAlongPathExtended\<close>.\<close>

definition pipeAlongPathExtended ::
  "'s kernel \<Rightarrow> vec3 list \<Rightarrow> real \<Rightarrow> real option \<Rightarrow> real option \<Rightarrow> error + 's"
where
  "pipeAlongPathExtended K path r extensionFactor segs =
     (if length path < 2 then Inl (Error ''Path must have at least 2 points'')
      else pipeAlongPath K (extendedPath path r extensionFactor) r segs)"

section \<open>Notions the properties are stated with\<close>

subsection \<open>Selection\<close>

text \<open>
  The distance that \<^verbatim>\<open>selectByPoint\<close> computes from the query point of a point
  selection to the segment of an edge; whether a number is finite; and whether a
  distance is \<^verbatim>\<open><= maxDistance\<close> (\<^verbatim>\<open>Infinity\<close> when \<^verbatim>\<open>maxDistance\<close> is absent).
\<close>

definition edgeDistance :: "PointEdgeSelection \<Rightarrow> MeshEdge \<Rightarrow> jsnum" where
  "edgeDistance s e =
     pointToSegmentDistance (finVec (point s)) (finVec (p0 e)) (finVec (p1 e))"

fun finiteNumber :: "jsnum \<Rightarrow> bool" where
  "finiteNumber (Fin x) = True"
| "finiteNumber a = False"

definition withinMaxDistance :: "PointEdgeSelection \<Rightarrow> jsnum \<Rightarrow> bool" where
  "withinMaxDistance s d =
     js_le d (case maxDistance s of Some m \<Rightarrow> Fin m | None \<Rightarrow> PosInf)"

text \<open>
  The geometry the distance is compared with: the Euclidean distance of two points,
  the point of the segment from \<open>a\<close> to \<open>b\<close> at parameter \<open>t\<close> (in \<open>[0, 1]\<close>), and
  coordinates of magnitude at most \<open>B\<close>.
\<close>

definition dist3 :: "vec3 \<Rightarrow> vec3 \<Rightarrow> real" where
  "dist3 p q =
     (case p of (px, py, pz) \<Rightarrow> case q of (qx, qy, qz) \<Rightarrow>
        sqrt ((px - qx)\<^sup>2 + (py - qy)\<^sup>2 + (pz - qz)\<^sup>2))"

definition pointOnSegment :: "vec3 \<Rightarrow> vec3 \<Rightarrow> real \<Rightarrow> vec3" where
  "pointOnSegment a b t =
     (case a of (ax, ay, az) \<Rightarrow> case b of (bx, by, bz) \<Rightarrow>
        (ax + t * (bx - ax), ay + t * (by - ay), az + t * (bz - az)))"

definition coordsWithin :: "real \<Rightarrow> vec3 \<Rightarrow> bool" where
  "coordsWithin B v = (case v of (x, y, z) \<Rightarrow> \<bar>x\<bar> \<le> B \<and> \<bar>y\<bar> \<le> B \<and> \<bar>z\<bar> \<le> B)"

subsection \<open>The orchestrator's local values\<close>

text \<open>
  \<^verbatim>\<open>segments\<close> after the destructuring with its default, \<^verbatim>\<open>selectedEdges\<close>, and the
  array \<^verbatim>\<open>cuttingTools\<close> as the subtraction loop finds it.
\<close>

definition filletSegments :: "FilletOptions \<Rightarrow> real" where
  "filletSegments options = (case segments options of Some n \<Rightarrow> n | None \<Rightarrow> 16)"

definition filletSelected :: "'s kernel \<Rightarrow> 's \<Rightarrow> FilletOptions \<Rightarrow> MeshEdge list" where
  "filletSelected K mf options = selectEdges (extractEdges (getMesh K mf)) (selection options)"

definition filletCuttingTools :: "'s kernel \<Rightarrow> 's \<Rightarrow> FilletOptions \<Rightarrow> 's list" where
  "filletCuttingTools K mf options =
     collectTools K (radius options) (filletSegments options) (filletSelected K mf options) []"

subsection \<open>Tubes, as the specification words them\<close>

text \<open>
  A sphere of the given radius at a point; the hull of the spheres at two points (one
  tube segment); the segments of the consecutive pairs of a path; and their union,
  which for a single segment is the segment itself.
\<close>

definition sphereAt :: "'s kernel \<Rightarrow> real \<Rightarrow> real option \<Rightarrow> vec3 \<Rightarrow> 's" where
  "sphereAt K r segs p = translate K (sphere K r segs) p"

definition tubeSegment :: "'s kernel \<Rightarrow> real \<Rightarrow> real option \<Rightarrow> vec3 \<Rightarrow> vec3 \<Rightarrow> 's" where
  "tubeSegment K r segs p q = hull_solids K [sphereAt K r segs p, sphereAt K r segs q]"

fun consecutivePairs :: "'a list \<Rightarrow> ('a \<times> 'a) list" where
  "consecutivePairs (p # q # ps) = (p, q) # consecutivePairs (q # ps)"
| "consecutivePairs ps = []"

definition pathSegments :: "'s kernel \<Rightarrow> vec3 list \<Rightarrow> real \<Rightarrow> real option \<Rightarrow> 's list" where
  "pathSegments K path r segs =
     map (\<lambda>(p, q). tubeSegment K r segs p q) (consecutivePairs path)"

definition unionOfSegments :: "'s kernel \<Rightarrow> 's list \<Rightarrow> 's" where
  "unionOfSegments K xs = (case xs of [x] \<Rightarrow> x | _ \<Rightarrow> union_all K xs)"

subsection \<open>Triangles and the pairs they join\<close>

text \<open>
  The triangles of a mesh as triples of vertex indices, the three sides of a triangle
  in the order of line 96, and whether a side joins the unordered pair \<open>{a, b}\<close>.
  \<open>trianglesWithEdge m a b\<close> counts the triangles that have the pair as an edge;
  \<open>sideCount m a b\<close> counts the sides that join it, so a triangle that names a vertex
  twice can count twice. A mesh is \<open>nondegenerate\<close> when every triangle has three
  different indices, and a \<open>closedSurface\<close> when every pair that occurs as a
  triangle edge occurs in exactly two triangles.
\<close>

definition triangles :: "Mesh \<Rightarrow> (nat \<times> nat \<times> nat) list" where
  "triangles m =
     map (\<lambda>t. (triVerts m ! (t * 3), triVerts m ! (t * 3 + 1), triVerts m ! (t * 3 + 2)))
       [0..<numTris m]"

fun triangleSides :: "nat \<times> nat \<times> nat \<Rightarrow> (nat \<times> nat) list" where
  "triangleSides (i0, i1, i2) = [(i0, i1), (i1, i2), (i2, i0)]"

fun joins :: "nat \<Rightarrow> nat \<Rightarrow> nat \<times> nat \<Rightarrow> bool" where
  "joins a b (x, y) = ((x = a \<and> y = b) \<or> (x = b \<and> y = a))"

definition hasEdge :: "nat \<times> nat \<times> nat \<Rightarrow> nat \<Rightarrow> nat \<Rightarrow> bool" where
  "hasEdge t a b = list_ex (joins a b) (triangleSides t)"

definition trianglesWithEdge :: "Mesh \<Rightarrow> nat \<Rightarrow> nat \<Rightarrow> nat" where
  "trianglesWithEdge m a b = length (filter (\<lambda>t. hasEdge t a b) (triangles m))"

definition sideCount :: "Mesh \<Rightarrow> nat \<Rightarrow> nat \<Rightarrow> nat" where
  "sideCount m a b = length (filter (joins a b) (concat (map triangleSides (triangles m))))"

fun distinctCorners :: "nat \<times> nat \<times> nat \<Rightarrow> bool" where
  "distinctCorners (i0, i1, i2) = (i0 \<noteq> i1 \<and> i1 \<noteq> i2 \<and> i2 \<noteq> i0)"

definition nondegenerate :: "Mesh \<Rightarrow> bool" where
  "nondegenerate m = list_all distinctCorners (triangles m)"

definition closedSurface :: "Mesh \<Rightarrow> bool" where
  "closedSurface m =
     list_all (\<lambda>t. list_all (\<lambda>(x, y). trianglesWithEdge m x y = 2) (triangleSides t))
       (triangles m)"

subsection \<open>The dihedral angle, as the specification words it\<close>

definition dot3 :: "vec3 \<Rightarrow> vec3 \<Rightarrow> real" where
  "dot3 a b = (case a of (ax, ay, az) \<Rightarrow> case b of (bx, by, bz) \<Rightarrow> ax * bx + ay * by + az * bz)"

definition clamp :: "real \<Rightarrow> real \<Rightarrow> real \<Rightarrow> real" where
  "clamp x lo hi = max lo (min hi x)"

section \<open>Example inputs\<close>

text \<open>
  A kernel whose solids are the terms that build them, so that a result shows the
  operations applied; every solid has volume 1 and the given mesh.
\<close>

datatype shape =
    Input
  | Sphere real "real option"
  | HullSolids "shape list"
  | HullPoints "vec3 list"
  | UnionAll "shape list"
  | Translate shape vec3
  | Subtract shape shape

definition symbolicKernel :: "Mesh \<Rightarrow> shape kernel" where
  "symbolicKernel mesh =
     \<lparr>sphere = Sphere, hull_solids = HullSolids, hull_points = HullPoints,
      union_all = UnionAll, translate = Translate, subtract = Subtract,
      volume = (\<lambda>_. 1), getMesh = (\<lambda>_. mesh)\<rparr>"

text \<open>The same kernel where no mesh matters.\<close>

definition symbolicTubes :: "shape kernel" where
  "symbolicTubes = symbolicKernel \<lparr>triVerts = [], vertProperties = [], numProp = 3\<rparr>"

text \<open>The mesh with no triangle.\<close>

definition emptyMesh :: Mesh where
  "emptyMesh = \<lparr>triVerts = [], vertProperties = [], numProp = 3\<rparr>"

text \<open>
  Two triangles that meet at a right angle along the edge from vertex 0 to vertex 1;
  the other four edges are boundary edges.
\<close>

definition hinge :: Mesh where
  "hinge =
     \<lparr>triVerts = [0, 1, 2, 1, 0, 3],
      vertProperties = [0, 0, 0, 1, 0, 0, 0, 1, 0, 0, 0, 1],
      numProp = 3\<rparr>"

definition hingeEdge :: MeshEdge where
  "hingeEdge =
     \<lparr>v0 = 0, v1 = 1, p0 = (0, 0, 0), p1 = (1, 0, 0),
      n0 = (0, 0, 1), n1 = (0, 1, 0), dihedralAngle = 90\<rparr>"

text \<open>
  Filleting the hinge with radius 1, all edges at least 80 degrees sharp, and the
  default number of segments; \<open>hingeTool\<close> is the wedge minus the tube that
  \<^verbatim>\<open>createFilletCuttingTool\<close> builds for the shared edge.
\<close>

definition hingeOptions :: FilletOptions where
  "hingeOptions = \<lparr>radius = 1, selection = Angle \<lparr>minAngle = 80\<rparr>, segments = None\<rparr>"

definition hingeTool :: shape where
  "hingeTool =
     Subtract
       (HullPoints
          [(- (1 / 10), 0, 0), (- (1 / 10), 0, - (11 / 10)), (- (1 / 10), - (11 / 10), 0),
           (11 / 10, 0, 0), (11 / 10, 0, - (11 / 10)), (11 / 10, - (11 / 10), 0)])
       (HullSolids
          [Translate (Sphere 1 (Some 16)) (- (1 / 10), - 1, - 1),
           Translate (Sphere 1 (Some 16)) (11 / 10, - 1, - 1)])"

text \<open>
  Two more edges for the point selection: at distance 1 and at distance 5 from the
  origin.
\<close>

definition liftedEdge :: MeshEdge where
  "liftedEdge =
     \<lparr>v0 = 2, v1 = 3, p0 = (0, 1, 0), p1 = (0, 2, 0),
      n0 = (0, 0, 1), n1 = (1, 0, 0), dihedralAngle = 90\<rparr>"

definition farEdge :: MeshEdge where
  "farEdge =
     \<lparr>v0 = 4, v1 = 5, p0 = (3, 4, 0), p1 = (6, 8, 0),
      n0 = (0, 0, 1), n1 = (0, 0, 1), dihedralAngle = 0\<rparr>"

text \<open>Two triangles glued along all three edges: the smallest closed surface.\<close>

definition pillow :: Mesh where
  "pillow =
     \<lparr>triVerts = [0, 1, 2, 0, 2, 1],
      vertProperties = [0, 0, 0, 1, 0, 0, 0, 1, 0],
      numProp = 3\<rparr>"

text \<open>
  Meshes with a triangle that names a vertex twice: one such triangle, two copies of
  it, and two such triangles that share the repeated vertex.
\<close>

definition foldedTriangle :: Mesh where
  "foldedTriangle =
     \<lparr>triVerts = [0, 0, 1], vertProperties = [0, 0, 0, 1, 0, 0], numProp = 3\<rparr>"

definition foldedPair :: Mesh where
  "foldedPair =
     \<lparr>triVerts = [0, 0, 1, 0, 0, 1], vertProperties = [0, 0, 0, 1, 0, 0], numProp = 3\<rparr>"

definition loopPair :: Mesh where
  "loopPair =
     \<lparr>triVerts = [0, 0, 1, 0, 0, 2],
      vertProperties = [0, 0, 0, 1, 0, 0, 0, 1, 0],
      numProp = 3\<rparr>"

section \<open>Auxiliary definitions for the proofs\<close>

text \<open>
  The value of \<^verbatim>\<open>pointToSegmentDistance\<close> when no operation overflows: the same
  steps over the reals.
\<close>

definition exactDistance :: "vec3 \<Rightarrow> vec3 \<Rightarrow> vec3 \<Rightarrow> real" where
  "exactDistance p a b =
     (case p of (px, py, pz) \<Rightarrow> case a of (ax, ay, az) \<Rightarrow> case b of (bx, by, bz) \<Rightarrow>
       let abx = bx - ax; aby = by - ay; abz = bz - az;
           apx = px - ax; apy = py - ay; apz = pz - az;
           abLenSq = abx * abx + aby * aby + abz * abz
       in if abLenSq < 1 / 10 ^ 12
          then sqrt (apx * apx + apy * apy + apz * apz)
          else
            let t = max 0 (min 1 ((apx * abx + apy * aby + apz * abz) / abLenSq));
                cx = ax + t * abx;
                cy = ay + t * aby;
                cz = az + t * abz;
                dx = px - cx; dy = py - cy; dz = pz - cz
            in sqrt (dx * dx + dy * dy + dz * dz))"


text \<open>
  The two steps of lines 104-107 as one recursion over the association list.
\<close>

fun addRec :: "string \<Rightarrow> AdjTri \<Rightarrow> EdgeMap \<Rightarrow> EdgeMap" where
  "addRec k e [] = [(k, [e])]"
| "addRec k e ((k', l) # M) = (if k' = k then (k', l @ [e]) # M else (k', l) # addRec k e M)"

text \<open>
  What the loop over the triangles feeds into the map: for triangle \<open>t\<close> its three
  keys, each with the entry of \<open>t\<close>; for the mesh, these in the order of the loop.
  \<open>insertAll\<close> inserts such a list, and \<open>entriesFor k\<close> picks the entries that
  were inserted under the key \<open>k\<close>.
\<close>

definition sidesOfTriangle :: "Mesh \<Rightarrow> nat \<Rightarrow> (string \<times> AdjTri) list" where
  "sidesOfTriangle m t =
     map (\<lambda>(a, b). (edgeKey a b,
            \<lparr>tri = t, normal = computeNormal (getVertex m (triVerts m ! (t * 3)))
                (getVertex m (triVerts m ! (t * 3 + 1))) (getVertex m (triVerts m ! (t * 3 + 2)))\<rparr>))
       (triangleSides (triVerts m ! (t * 3), triVerts m ! (t * 3 + 1), triVerts m ! (t * 3 + 2)))"

definition meshSides :: "Mesh \<Rightarrow> (string \<times> AdjTri) list" where
  "meshSides m = concat (map (sidesOfTriangle m) [0..<numTris m])"

definition insertAll :: "(string \<times> AdjTri) list \<Rightarrow> EdgeMap \<Rightarrow> EdgeMap" where
  "insertAll xs M = foldl (\<lambda>acc (k, e). addRec k e acc) M xs"

definition entriesFor :: "string \<Rightarrow> (string \<times> AdjTri) list \<Rightarrow> AdjTri list" where
  "entriesFor k xs = map snd (filter (\<lambda>p. fst p = k) xs)"

text \<open>The edge that lines 117-139 build from the indices \<open>a\<close>, \<open>b\<close> and the adjacency list.\<close>

definition edgeOf :: "Mesh \<Rightarrow> nat \<Rightarrow> nat \<Rightarrow> AdjTri list \<Rightarrow> MeshEdge" where
  "edgeOf m a b ts =
     \<lparr>v0 = a, v1 = b, p0 = getVertex m a, p1 = getVertex m b,
      n0 = normal (ts ! 0), n1 = normal (ts ! 1),
      dihedralAngle = arccos (clamp (dot3 (normal (ts ! 0)) (normal (ts ! 1))) (- 1) 1) * (180 / pi)\<rparr>"

section \<open>Selection: the loop invariant of selectByPoint\<close>

lemma js_sqrt_not_NegInf: "js_sqrt x \<noteq> NegInf"
  by (cases x) simp_all

lemma pointToSegmentDistance_not_NegInf: "pointToSegmentDistance p a b \<noteq> NegInf"
  by (simp add: pointToSegmentDistance_def Let_def js_sqrt_not_NegInf split: prod.splits)

lemma js_lt_PosInf: "js_lt d PosInf \<longleftrightarrow> finiteNumber d \<or> d = NegInf"
  by (cases d) simp_all

lemma js_le_lt_trans_Fin:
  "\<not> js_lt d (Fin x) \<Longrightarrow> d \<noteq> NaN \<Longrightarrow> d \<noteq> NegInf \<Longrightarrow> js_le (Fin x) d"
  by (cases d) simp_all

lemma js_lt_Fin_le: "js_lt d (Fin x) \<Longrightarrow> js_le (Fin x) e \<Longrightarrow> js_le d e"
  by (cases d; cases e) simp_all

lemma js_lt_finite: "js_lt d c \<Longrightarrow> d \<noteq> NegInf \<Longrightarrow> finiteNumber d"
  by (cases d; cases c) simp_all

lemma js_le_refl_Fin: "finiteNumber d \<Longrightarrow> js_le d d"
  by (cases d) simp_all

lemma selectByPoint_loop_inv:
  assumes "(ce = None \<and> cd = PosInf \<and>
             (\<forall>e\<in>set done. \<not> (finiteNumber (D e) \<and> js_le (D e) md)))
     \<or> (\<exists>e0. ce = Some e0 \<and> cd = D e0 \<and> e0 \<in> set done \<and> finiteNumber (D e0) \<and> js_le (D e0) md
          \<and> (\<forall>e\<in>set done. D e \<noteq> NaN \<longrightarrow> js_le (D e0) (D e)))"
  and "D = (\<lambda>e. pointToSegmentDistance p (finVec (p0 e)) (finVec (p1 e)))"
  and "selectByPoint_loop p md edges (ce, cd) = (ce', cd')"
  shows "(ce' = None \<and> cd' = PosInf \<and>
             (\<forall>e\<in>set (done @ edges). \<not> (finiteNumber (D e) \<and> js_le (D e) md)))
     \<or> (\<exists>e0. ce' = Some e0 \<and> cd' = D e0 \<and> e0 \<in> set (done @ edges) \<and> finiteNumber (D e0)
          \<and> js_le (D e0) md
          \<and> (\<forall>e\<in>set (done @ edges). D e \<noteq> NaN \<longrightarrow> js_le (D e0) (D e)))"
  using assms(1,3)
proof (induction edges arbitrary: ce cd "done")
  case Nil
  then show ?case by simp
next
  case (Cons x xs)
  have nn: "D e \<noteq> NegInf" for e
    by (simp add: assms(2) pointToSegmentDistance_not_NegInf)
  show ?case
  proof (cases "js_lt (D x) cd \<and> js_le (D x) md")
    case True
    have step: "selectByPoint_loop p md xs (Some x, D x) = (ce', cd')"
      using Cons.prems(2) True by (simp add: Let_def assms(2))
    have fx: "finiteNumber (D x)"
      using True nn js_lt_finite by blast
    have low: "\<forall>e\<in>set done. D e \<noteq> NaN \<longrightarrow> js_le (D x) (D e)"
    proof (intro ballI impI)
      fix e assume e: "e \<in> set done" "D e \<noteq> NaN"
      from Cons.prems(1) show "js_le (D x) (D e)"
      proof
        assume a: "ce = None \<and> cd = PosInf \<and> (\<forall>e\<in>set done. \<not> (finiteNumber (D e) \<and> js_le (D e) md))"
        then have "\<not> (finiteNumber (D e) \<and> js_le (D e) md)" using e by blast
        then show ?thesis using fx True e(2) nn[of e]
          by (cases "D x"; cases "D e"; cases md) auto
      next
        assume "\<exists>e0. ce = Some e0 \<and> cd = D e0 \<and> e0 \<in> set done \<and> finiteNumber (D e0) \<and> js_le (D e0) md
          \<and> (\<forall>e\<in>set done. D e \<noteq> NaN \<longrightarrow> js_le (D e0) (D e))"
        then obtain e0 where c: "cd = D e0" "finiteNumber (D e0)" "js_le (D e0) (D e)"
          using e by blast
        then show ?thesis using True
          by (cases "D x"; cases "D e"; cases "D e0") auto
      qed
    qed
    have inv: "(Some x = None \<and> D x = PosInf \<and>
             (\<forall>e\<in>set (done @ [x]). \<not> (finiteNumber (D e) \<and> js_le (D e) md)))
     \<or> (\<exists>e0. Some x = Some e0 \<and> D x = D e0 \<and> e0 \<in> set (done @ [x]) \<and> finiteNumber (D e0)
          \<and> js_le (D e0) md
          \<and> (\<forall>e\<in>set (done @ [x]). D e \<noteq> NaN \<longrightarrow> js_le (D e0) (D e)))"
      using True fx low js_le_refl_Fin[OF fx] by auto
    show ?thesis using Cons.IH[OF inv step] by simp
  next
    case False
    have step: "selectByPoint_loop p md xs (ce, cd) = (ce', cd')"
      using Cons.prems(2) False by (auto simp add: Let_def assms(2) split: if_splits)
    from Cons.prems(1)
    have inv: "(ce = None \<and> cd = PosInf \<and>
             (\<forall>e\<in>set (done @ [x]). \<not> (finiteNumber (D e) \<and> js_le (D e) md)))
     \<or> (\<exists>e0. ce = Some e0 \<and> cd = D e0 \<and> e0 \<in> set (done @ [x]) \<and> finiteNumber (D e0)
          \<and> js_le (D e0) md
          \<and> (\<forall>e\<in>set (done @ [x]). D e \<noteq> NaN \<longrightarrow> js_le (D e0) (D e)))"
    proof
      assume a: "ce = None \<and> cd = PosInf \<and> (\<forall>e\<in>set done. \<not> (finiteNumber (D e) \<and> js_le (D e) md))"
      then have "\<not> (finiteNumber (D x) \<and> js_le (D x) md)"
        using False by (cases "D x") auto
      then show ?thesis using a by auto
    next
      assume "\<exists>e0. ce = Some e0 \<and> cd = D e0 \<and> e0 \<in> set done \<and> finiteNumber (D e0) \<and> js_le (D e0) md
          \<and> (\<forall>e\<in>set done. D e \<noteq> NaN \<longrightarrow> js_le (D e0) (D e))"
      then obtain e0 where c: "ce = Some e0" "cd = D e0" "e0 \<in> set done" "finiteNumber (D e0)"
          "js_le (D e0) md" "\<forall>e\<in>set done. D e \<noteq> NaN \<longrightarrow> js_le (D e0) (D e)"
        by blast
      have "D x \<noteq> NaN \<longrightarrow> js_le (D e0) (D x)"
        using False c(2,4,5) nn[of x]
        by (cases "D x"; cases "D e0"; cases md) auto
      then show ?thesis using c by auto
    qed
    show ?thesis using Cons.IH[OF inv step] by simp
  qed
qed

section \<open>The distance when nothing overflows\<close>

lemma fl_Fin: "\<bar>x\<bar> < overflowBound \<Longrightarrow> fl x = Fin x"
  by (auto simp add: fl_def)

lemma js_add_Fin: "\<bar>x + y\<bar> < overflowBound \<Longrightarrow> js_add (Fin x) (Fin y) = Fin (x + y)"
  by (simp add: fl_Fin)

lemma js_sub_Fin: "\<bar>x - y\<bar> < overflowBound \<Longrightarrow> js_sub (Fin x) (Fin y) = Fin (x - y)"
  by (simp add: js_sub_def fl_Fin)

lemma js_mul_Fin: "\<bar>x * y\<bar> < overflowBound \<Longrightarrow> js_mul (Fin x) (Fin y) = Fin (x * y)"
  by (simp add: fl_Fin)

lemma js_div_Fin: "y \<noteq> 0 \<Longrightarrow> \<bar>x / y\<bar> < overflowBound \<Longrightarrow> js_div (Fin x) (Fin y) = Fin (x / y)"
  by (simp add: fl_Fin)

lemma js_sqrt_Fin: "0 \<le> x \<Longrightarrow> js_sqrt (Fin x) = Fin (sqrt x)"
  by simp

lemma js_min_Fin: "js_min (Fin x) (Fin y) = Fin (min x y)"
  by (simp add: js_min_def min_def)

lemma js_max_Fin: "js_max (Fin x) (Fin y) = Fin (max x y)"
  by (simp add: js_max_def max_def)

lemma prod_bound:
  fixes u v :: real
  assumes "\<bar>u\<bar> \<le> U" "\<bar>v\<bar> \<le> V"
  shows "\<bar>u * v\<bar> \<le> U * V"
proof -
  have "\<bar>u * v\<bar> = \<bar>u\<bar> * \<bar>v\<bar>" by (simp add: abs_mult)
  also have "\<dots> \<le> U * V"
    using assms by (intro mult_mono) auto
  finally show ?thesis .
qed

lemma dot_bound:
  fixes u1 :: real
  assumes "\<bar>u1\<bar> \<le> U" "\<bar>u2\<bar> \<le> U" "\<bar>u3\<bar> \<le> U" "\<bar>w1\<bar> \<le> V" "\<bar>w2\<bar> \<le> V" "\<bar>w3\<bar> \<le> V"
  shows "\<bar>u1 * w1 + u2 * w2\<bar> \<le> 2 * (U * V)" "\<bar>u1 * w1 + u2 * w2 + u3 * w3\<bar> \<le> 3 * (U * V)"
proof -
  have a: "\<bar>u1 * w1\<bar> \<le> U * V" "\<bar>u2 * w2\<bar> \<le> U * V" "\<bar>u3 * w3\<bar> \<le> U * V"
    using assms by (simp_all add: prod_bound)
  show "\<bar>u1 * w1 + u2 * w2\<bar> \<le> 2 * (U * V)" using a by linarith
  show "\<bar>u1 * w1 + u2 * w2 + u3 * w3\<bar> \<le> 3 * (U * V)" using a by linarith
qed

lemma js_dot:
  assumes "\<bar>u1\<bar> \<le> U" "\<bar>u2\<bar> \<le> U" "\<bar>u3\<bar> \<le> U" "\<bar>w1\<bar> \<le> V" "\<bar>w2\<bar> \<le> V" "\<bar>w3\<bar> \<le> V"
    and "3 * (U * V) < overflowBound"
  shows "js_add (js_add (js_mul (Fin u1) (Fin w1)) (js_mul (Fin u2) (Fin w2))) (js_mul (Fin u3) (Fin w3))
           = Fin (u1 * w1 + u2 * w2 + u3 * w3)"
proof -
  have a: "\<bar>u1 * w1\<bar> \<le> U * V" "\<bar>u2 * w2\<bar> \<le> U * V" "\<bar>u3 * w3\<bar> \<le> U * V"
    using assms by (simp_all add: prod_bound)
  have p: "0 \<le> U * V" using a(1) by linarith
  have b: "\<bar>u1 * w1\<bar> < overflowBound" "\<bar>u2 * w2\<bar> < overflowBound" "\<bar>u3 * w3\<bar> < overflowBound"
    using a p assms(7) by linarith+
  have c: "\<bar>u1 * w1 + u2 * w2\<bar> < overflowBound" "\<bar>u1 * w1 + u2 * w2 + u3 * w3\<bar> < overflowBound"
    using dot_bound[OF assms(1-6)] p assms(7) by linarith+
  show ?thesis
    by (simp only: js_mul_Fin[OF b(1)] js_mul_Fin[OF b(2)] js_mul_Fin[OF b(3)]
          js_add_Fin[OF c(1)] js_add_Fin[OF c(2)])
qed

lemma pointToSegmentDistance_exact:
  assumes "coordsWithin (2 ^ 400) p" "coordsWithin (2 ^ 400) a" "coordsWithin (2 ^ 400) b"
  shows "pointToSegmentDistance (finVec p) (finVec a) (finVec b) = Fin (exactDistance p a b)"
proof -
  obtain px py pz where p: "p = (px, py, pz)" by (cases p)
  obtain ax ay az where a: "a = (ax, ay, az)" by (cases a)
  obtain bx "by" bz where b: "b = (bx, by, bz)" by (cases b)
  define B :: real where "B = 2 ^ 400"
  have B: "0 \<le> B" by (simp add: B_def)
  have cp: "\<bar>px\<bar> \<le> B" "\<bar>py\<bar> \<le> B" "\<bar>pz\<bar> \<le> B"
    using assms(1) by (simp_all add: coordsWithin_def p B_def)
  have ca: "\<bar>ax\<bar> \<le> B" "\<bar>ay\<bar> \<le> B" "\<bar>az\<bar> \<le> B"
    using assms(2) by (simp_all add: coordsWithin_def a B_def)
  have cb: "\<bar>bx\<bar> \<le> B" "\<bar>by\<bar> \<le> B" "\<bar>bz\<bar> \<le> B"
    using assms(3) by (simp_all add: coordsWithin_def b B_def)
  define abx aby abz apx apy apz where d1: "abx = bx - ax" "aby = by - ay" "abz = bz - az"
    "apx = px - ax" "apy = py - ay" "apz = pz - az"
  have small: "2 * B < overflowBound" "4 * B < overflowBound" "3 * (2 * B * (2 * B)) < overflowBound"
     "3 * (4 * B * (4 * B)) < overflowBound" "3 * (2 * B * (2 * B)) * 10 ^ 12 < overflowBound"
    by (simp_all add: B_def overflowBound_def)
  have mab: "\<bar>abx\<bar> \<le> 2 * B" "\<bar>aby\<bar> \<le> 2 * B" "\<bar>abz\<bar> \<le> 2 * B"
    using ca cb unfolding d1 by linarith+
  have map: "\<bar>apx\<bar> \<le> 2 * B" "\<bar>apy\<bar> \<le> 2 * B" "\<bar>apz\<bar> \<le> 2 * B"
    using ca cp unfolding d1 by linarith+
  have s1: "js_sub (Fin bx) (Fin ax) = Fin abx" "js_sub (Fin by) (Fin ay) = Fin aby"
      "js_sub (Fin bz) (Fin az) = Fin abz" "js_sub (Fin px) (Fin ax) = Fin apx"
      "js_sub (Fin py) (Fin ay) = Fin apy" "js_sub (Fin pz) (Fin az) = Fin apz"
    using mab map small(1) unfolding d1 by (simp_all add: js_sub_Fin)
  define L where "L = abx * abx + aby * aby + abz * abz"
  define dt where "dt = apx * abx + apy * aby + apz * abz"
  have s2: "js_add (js_add (js_mul (Fin abx) (Fin abx)) (js_mul (Fin aby) (Fin aby))) (js_mul (Fin abz) (Fin abz)) = Fin L"
    unfolding L_def by (rule js_dot[OF mab mab small(3)])
  have s3: "js_add (js_add (js_mul (Fin apx) (Fin apx)) (js_mul (Fin apy) (Fin apy))) (js_mul (Fin apz) (Fin apz))
      = Fin (apx * apx + apy * apy + apz * apz)"
    by (rule js_dot[OF map map small(3)])
  have s4: "js_add (js_add (js_mul (Fin apx) (Fin abx)) (js_mul (Fin apy) (Fin aby))) (js_mul (Fin apz) (Fin abz)) = Fin dt"
    unfolding dt_def by (rule js_dot[OF map mab small(3)])
  have q3: "js_sqrt (Fin (apx * apx + apy * apy + apz * apz)) = Fin (sqrt (apx * apx + apy * apy + apz * apz))"
    by (rule js_sqrt_Fin) simp
  show ?thesis
  proof (cases "L < 1 / 10 ^ 12")
    case True
    have lhs: "pointToSegmentDistance (finVec p) (finVec a) (finVec b) = Fin (sqrt (apx * apx + apy * apy + apz * apz))"
      unfolding pointToSegmentDistance_def finVec_def p a b Let_def prod.case s1 s2 s3 q3
      using True by simp
    have c: "(bx - ax) * (bx - ax) + (by - ay) * (by - ay) + (bz - az) * (bz - az) < 1 / 10 ^ 12"
      using True unfolding L_def d1 .
    have rhs: "exactDistance p a b = sqrt (apx * apx + apy * apy + apz * apz)"
      unfolding d1 p a b exactDistance_def Let_def prod.case
      using c by (simp only: if_True)
    show ?thesis by (simp only: lhs rhs)
  next
    case False
    then have Lpos: "1 / 10 ^ 12 \<le> L" "L \<noteq> 0" "0 < L" by simp_all
    have dtb: "\<bar>dt\<bar> \<le> 3 * (2 * B * (2 * B))"
      unfolding dt_def by (rule dot_bound(2)[OF map mab])
    have "\<bar>dt / L\<bar> = \<bar>dt\<bar> / L" using Lpos by simp
    also have "\<dots> \<le> \<bar>dt\<bar> / (1 / 10 ^ 12)"
      using Lpos(1) by (intro divide_left_mono) auto
    also have "\<dots> = \<bar>dt\<bar> * 10 ^ 12" by simp
    also have "\<dots> \<le> 3 * (2 * B * (2 * B)) * 10 ^ 12"
      using dtb by simp
    finally have qb: "\<bar>dt / L\<bar> < overflowBound" using small(5) by linarith
    define t where "t = max 0 (min 1 (dt / L))"
    have t01: "0 \<le> t" "t \<le> 1" by (simp_all add: t_def)
    have s5: "js_max (Fin 0) (js_min (Fin 1) (js_div (Fin dt) (Fin L))) = Fin t"
      by (simp only: js_div_Fin[OF Lpos(2) qb] js_min_Fin js_max_Fin t_def)
    have tb: "\<bar>t * abx\<bar> \<le> 2 * B" "\<bar>t * aby\<bar> \<le> 2 * B" "\<bar>t * abz\<bar> \<le> 2 * B"
    proof -
      have "\<bar>t * u\<bar> \<le> 2 * B" if "\<bar>u\<bar> \<le> 2 * B" for u
      proof -
        have "\<bar>t * u\<bar> \<le> 1 * (2 * B)"
          by (rule prod_bound) (use t01 that in auto)
        then show ?thesis by simp
      qed
      then show "\<bar>t * abx\<bar> \<le> 2 * B" "\<bar>t * aby\<bar> \<le> 2 * B" "\<bar>t * abz\<bar> \<le> 2 * B"
        using mab by blast+
    qed
    define cx cy cz where d2: "cx = ax + t * abx" "cy = ay + t * aby" "cz = az + t * abz"
    have mc: "\<bar>cx\<bar> \<le> 3 * B" "\<bar>cy\<bar> \<le> 3 * B" "\<bar>cz\<bar> \<le> 3 * B"
      using ca tb unfolding d2 by linarith+
    have s6: "js_add (Fin ax) (js_mul (Fin t) (Fin abx)) = Fin cx"
        "js_add (Fin ay) (js_mul (Fin t) (Fin aby)) = Fin cy"
        "js_add (Fin az) (js_mul (Fin t) (Fin abz)) = Fin cz"
    proof -
      have tb': "\<bar>t * abx\<bar> < overflowBound" "\<bar>t * aby\<bar> < overflowBound" "\<bar>t * abz\<bar> < overflowBound"
        using tb small(1) by linarith+
      have mc': "\<bar>ax + t * abx\<bar> < overflowBound" "\<bar>ay + t * aby\<bar> < overflowBound"
          "\<bar>az + t * abz\<bar> < overflowBound"
        using mc small(2) B unfolding d2 by linarith+
      show "js_add (Fin ax) (js_mul (Fin t) (Fin abx)) = Fin cx"
        unfolding d2 by (simp only: js_mul_Fin[OF tb'(1)] js_add_Fin[OF mc'(1)])
      show "js_add (Fin ay) (js_mul (Fin t) (Fin aby)) = Fin cy"
        unfolding d2 by (simp only: js_mul_Fin[OF tb'(2)] js_add_Fin[OF mc'(2)])
      show "js_add (Fin az) (js_mul (Fin t) (Fin abz)) = Fin cz"
        unfolding d2 by (simp only: js_mul_Fin[OF tb'(3)] js_add_Fin[OF mc'(3)])
    qed
    define dx dy dz where d3: "dx = px - cx" "dy = py - cy" "dz = pz - cz"
    have md: "\<bar>dx\<bar> \<le> 4 * B" "\<bar>dy\<bar> \<le> 4 * B" "\<bar>dz\<bar> \<le> 4 * B"
      using cp mc unfolding d3 by linarith+
    have s7: "js_sub (Fin px) (Fin cx) = Fin dx" "js_sub (Fin py) (Fin cy) = Fin dy"
        "js_sub (Fin pz) (Fin cz) = Fin dz"
      using md small(2) unfolding d3 by (simp_all add: js_sub_Fin)
    have s8: "js_add (js_add (js_mul (Fin dx) (Fin dx)) (js_mul (Fin dy) (Fin dy))) (js_mul (Fin dz) (Fin dz))
      = Fin (dx * dx + dy * dy + dz * dz)"
      by (rule js_dot[OF md md small(4)])
    have q8: "js_sqrt (Fin (dx * dx + dy * dy + dz * dz)) = Fin (sqrt (dx * dx + dy * dy + dz * dz))"
      by (rule js_sqrt_Fin) simp
    have lhs: "pointToSegmentDistance (finVec p) (finVec a) (finVec b) = Fin (sqrt (dx * dx + dy * dy + dz * dz))"
      unfolding pointToSegmentDistance_def finVec_def p a b Let_def prod.case s1 s2 s4 s5 s6 s7 s8 q8
      using False by simp
    have c: "\<not> (bx - ax) * (bx - ax) + (by - ay) * (by - ay) + (bz - az) * (bz - az) < 1 / 10 ^ 12"
      using False unfolding L_def d1 .
    have rhs: "exactDistance p a b = sqrt (dx * dx + dy * dy + dz * dz)"
      unfolding d3 d2 t_def dt_def L_def d1 p a b exactDistance_def Let_def prod.case
      using c by (simp only: if_False)
    show ?thesis by (simp only: lhs rhs)
  qed
qed

section \<open>The exact distance is the distance to the segment\<close>

lemma dist3_simps:
  "dist3 (px, py, pz) (qx, qy, qz) = sqrt ((px - qx)\<^sup>2 + (py - qy)\<^sup>2 + (pz - qz)\<^sup>2)"
  by (simp add: dist3_def)

lemma dist3_nonneg: "0 \<le> dist3 p q"
  by (cases p; cases q) (simp add: dist3_def)

lemma dist3_sym: "dist3 p q = dist3 q p"
  by (cases p; cases q) (simp add: dist3_def power2_commute)

lemma dist3_short:
  "dist3 (ax, ay, az) (bx, by, bz) < 1 / 10 ^ 6 \<longleftrightarrow>
   (bx - ax) * (bx - ax) + (by - ay) * (by - ay) + (bz - az) * (bz - az) < 1 / 10 ^ 12"
proof -
  let ?L = "(bx - ax) * (bx - ax) + (by - ay) * (by - ay) + (bz - az) * (bz - az)"
  have d: "dist3 (ax, ay, az) (bx, by, bz) = sqrt ?L"
    by (simp add: dist3_def power2_eq_square algebra_simps)
  have c: "sqrt (1 / 10 ^ 12) = (1 / 10 ^ 6 :: real)"
    by (rule real_sqrt_unique) (simp_all add: power2_eq_square)
  have "sqrt ?L < sqrt (1 / 10 ^ 12) \<longleftrightarrow> ?L < 1 / 10 ^ 12"
    by (rule real_sqrt_less_iff)
  then show ?thesis unfolding d c .
qed

lemma exactDistance_short:
  assumes "dist3 a b < 1 / 10 ^ 6"
  shows "exactDistance p a b = dist3 p a"
proof -
  obtain px py pz where p: "p = (px, py, pz)" by (cases p)
  obtain ax ay az where a: "a = (ax, ay, az)" by (cases a)
  obtain bx "by" bz where b: "b = (bx, by, bz)" by (cases b)
  have c: "(bx - ax) * (bx - ax) + (by - ay) * (by - ay) + (bz - az) * (bz - az) < 1 / 10 ^ 12"
    using assms unfolding a b dist3_short .
  have "exactDistance p a b = sqrt ((px - ax) * (px - ax) + (py - ay) * (py - ay) + (pz - az) * (pz - az))"
    unfolding p a b exactDistance_def Let_def prod.case using c by (simp only: if_True)
  then show ?thesis by (simp add: p a dist3_def power2_eq_square)
qed

lemma clamp_least:
  fixes L s t :: real
  assumes "0 \<le> t" "t \<le> 1"
  shows "0 \<le> (t - max 0 (min 1 s)) * (t + max 0 (min 1 s) - 2 * s)"
proof -
  consider "s < 0" | "0 \<le> s \<and> s \<le> 1" | "1 < s" by linarith
  then show ?thesis
  proof cases
    case 1
    then have "max 0 (min 1 s) = 0" by simp
    moreover have "0 \<le> t * (t - 2 * s)"
      using 1 assms by (intro mult_nonneg_nonneg) auto
    ultimately show ?thesis by simp
  next
    case 2
    then have "max 0 (min 1 s) = s" by simp
    moreover have "0 \<le> (t - s) * (t - s)" by simp
    ultimately show ?thesis by simp
  next
    case 3
    then have "max 0 (min 1 s) = 1" by simp
    moreover have "0 \<le> (t - 1) * (t + 1 - 2 * s)"
      using 3 assms by (intro mult_nonpos_nonpos) auto
    ultimately show ?thesis by simp
  qed
qed

lemma exactDistance_long:
  assumes "\<not> dist3 a b < 1 / 10 ^ 6"
  shows "(\<exists>t. 0 \<le> t \<and> t \<le> 1 \<and> exactDistance p a b = dist3 p (pointOnSegment a b t)) \<and>
         (\<forall>t. 0 \<le> t \<and> t \<le> 1 \<longrightarrow> exactDistance p a b \<le> dist3 p (pointOnSegment a b t))"
proof -
  obtain px py pz where p: "p = (px, py, pz)" by (cases p)
  obtain ax ay az where a: "a = (ax, ay, az)" by (cases a)
  obtain bx "by" bz where b: "b = (bx, by, bz)" by (cases b)
  define abx aby abz apx apy apz where d1: "abx = bx - ax" "aby = by - ay" "abz = bz - az"
    "apx = px - ax" "apy = py - ay" "apz = pz - az"
  define L where "L = abx * abx + aby * aby + abz * abz"
  define dt where "dt = apx * abx + apy * aby + apz * abz"
  define A where "A = apx * apx + apy * apy + apz * apz"
  define s where "s = dt / L"
  define t0 where "t0 = max 0 (min 1 s)"
  define q where "q = (\<lambda>t. (px - (ax + t * abx)) * (px - (ax + t * abx))
       + (py - (ay + t * aby)) * (py - (ay + t * aby)) + (pz - (az + t * abz)) * (pz - (az + t * abz)))"
  have c: "\<not> (bx - ax) * (bx - ax) + (by - ay) * (by - ay) + (bz - az) * (bz - az) < 1 / 10 ^ 12"
    using assms unfolding a b dist3_short .
  then have Lpos: "0 < L" unfolding L_def d1 by simp
  have dts: "dt = s * L" using Lpos by (simp add: s_def)
  have e: "exactDistance p a b = sqrt (q t0)"
    unfolding q_def t0_def s_def dt_def L_def d1 p a b exactDistance_def Let_def prod.case
    using c by (simp only: if_False)
  have onseg: "dist3 p (pointOnSegment a b t) = sqrt (q t)" for t
    by (simp add: p a b pointOnSegment_def dist3_def q_def d1 power2_eq_square)
  have qt: "q t = A - 2 * t * dt + t * t * L" for t
    by (simp add: q_def A_def dt_def L_def d1 algebra_simps)
  have diff: "q t - q t0 = L * ((t - t0) * (t + t0 - 2 * s))" for t
    unfolding qt dts by (simp add: algebra_simps)
  have least: "q t0 \<le> q t" if "0 \<le> t" "t \<le> 1" for t
  proof -
    have nn: "0 \<le> (t - t0) * (t + t0 - 2 * s)"
      unfolding t0_def by (rule clamp_least[OF that])
    have "0 \<le> L * ((t - t0) * (t + t0 - 2 * s))"
      by (rule mult_nonneg_nonneg[OF less_imp_le[OF Lpos] nn])
    then show ?thesis using diff[of t] by linarith
  qed
  have t01: "0 \<le> t0" "t0 \<le> 1" by (simp_all add: t0_def)
  have ex: "\<exists>t. 0 \<le> t \<and> t \<le> 1 \<and> exactDistance p a b = dist3 p (pointOnSegment a b t)"
    using t01 e onseg[of t0] by auto
  have all: "\<forall>t. 0 \<le> t \<and> t \<le> 1 \<longrightarrow> exactDistance p a b \<le> dist3 p (pointOnSegment a b t)"
    using least by (simp add: e onseg)
  from ex all show ?thesis by blast
qed

lemma cauchy3:
  fixes x1 :: real
  shows "x1 * y1 + x2 * y2 + x3 * y3 \<le> sqrt (x1\<^sup>2 + x2\<^sup>2 + x3\<^sup>2) * sqrt (y1\<^sup>2 + y2\<^sup>2 + y3\<^sup>2)"
proof -
  let ?X = "x1\<^sup>2 + x2\<^sup>2 + x3\<^sup>2" and ?Y = "y1\<^sup>2 + y2\<^sup>2 + y3\<^sup>2"
  let ?d = "x1 * y1 + x2 * y2 + x3 * y3"
  have "?X * ?Y - ?d\<^sup>2 = (x1 * y2 - x2 * y1)\<^sup>2 + (x1 * y3 - x3 * y1)\<^sup>2 + (x2 * y3 - x3 * y2)\<^sup>2"
    by (simp add: power2_eq_square algebra_simps)
  moreover have "0 \<le> (x1 * y2 - x2 * y1)\<^sup>2 + (x1 * y3 - x3 * y1)\<^sup>2 + (x2 * y3 - x3 * y2)\<^sup>2"
    by simp
  ultimately have "?d\<^sup>2 \<le> ?X * ?Y" by linarith
  then have "\<bar>?d\<bar> \<le> sqrt (?X * ?Y)"
    by (rule real_le_rsqrt[OF order_trans[OF _ order_refl], of "\<bar>?d\<bar>", simplified])
  then show ?thesis by (simp add: real_sqrt_mult)
qed

lemma minkowski3:
  fixes x1 :: real
  shows "sqrt ((x1 + y1)\<^sup>2 + (x2 + y2)\<^sup>2 + (x3 + y3)\<^sup>2)
           \<le> sqrt (x1\<^sup>2 + x2\<^sup>2 + x3\<^sup>2) + sqrt (y1\<^sup>2 + y2\<^sup>2 + y3\<^sup>2)"
proof -
  let ?X = "x1\<^sup>2 + x2\<^sup>2 + x3\<^sup>2" and ?Y = "y1\<^sup>2 + y2\<^sup>2 + y3\<^sup>2"
  have X: "0 \<le> ?X" and Y: "0 \<le> ?Y" by simp_all
  have "(x1 + y1)\<^sup>2 + (x2 + y2)\<^sup>2 + (x3 + y3)\<^sup>2 = ?X + ?Y + 2 * (x1 * y1 + x2 * y2 + x3 * y3)"
    by (simp add: power2_eq_square algebra_simps)
  also have "\<dots> \<le> ?X + ?Y + 2 * (sqrt ?X * sqrt ?Y)"
    using cauchy3[of x1 y1 x2 y2 x3 y3] by simp
  also have "\<dots> = (sqrt ?X + sqrt ?Y)\<^sup>2"
    using X Y by (simp add: power2_sum del: zero_le_power2)
  finally have "(x1 + y1)\<^sup>2 + (x2 + y2)\<^sup>2 + (x3 + y3)\<^sup>2 \<le> (sqrt ?X + sqrt ?Y)\<^sup>2" .
  then show ?thesis
    by (rule real_le_lsqrt[rotated 1]) (simp_all del: zero_le_power2)
qed

lemma dist3_triangle: "dist3 p a \<le> dist3 p c + dist3 c a"
proof -
  obtain px py pz where p: "p = (px, py, pz)" by (cases p)
  obtain ax ay az where a: "a = (ax, ay, az)" by (cases a)
  obtain cx cy cz where c: "c = (cx, cy, cz)" by (cases c)
  show ?thesis
    using minkowski3[of "px - cx" "cx - ax" "py - cy" "cy - ay" "pz - cz" "cz - az"]
    by (simp add: p a c dist3_def)
qed

lemma dist3_pointOnSegment: "dist3 (pointOnSegment a b t) a = \<bar>t\<bar> * dist3 a b"
proof -
  obtain ax ay az where a: "a = (ax, ay, az)" by (cases a)
  obtain bx "by" bz where b: "b = (bx, by, bz)" by (cases b)
  have "(t * (bx - ax))\<^sup>2 + (t * (by - ay))\<^sup>2 + (t * (bz - az))\<^sup>2
      = t\<^sup>2 * ((ax - bx)\<^sup>2 + (ay - by)\<^sup>2 + (az - bz)\<^sup>2)"
    by (simp add: power2_eq_square algebra_simps)
  then show ?thesis
    by (simp add: a b pointOnSegment_def dist3_def real_sqrt_mult)
qed

lemma exactDistance_short_near:
  assumes "dist3 a b < 1 / 10 ^ 6" "0 \<le> t" "t \<le> 1"
  shows "exactDistance p a b < dist3 p (pointOnSegment a b t) + 1 / 10 ^ 6"
proof -
  have "dist3 (pointOnSegment a b t) a = t * dist3 a b"
    using assms(2) by (simp add: dist3_pointOnSegment)
  also have "\<dots> \<le> 1 * dist3 a b"
    using assms(3) dist3_nonneg[of a b] by (intro mult_right_mono) auto
  finally have "dist3 (pointOnSegment a b t) a < 1 / 10 ^ 6" using assms(1) by simp
  then show ?thesis
    using dist3_triangle[of p a "pointOnSegment a b t"] exactDistance_short[OF assms(1), of p]
    by linarith
qed

lemma pointOnSegment_0: "pointOnSegment a b 0 = a"
  by (cases a; cases b) (simp add: pointOnSegment_def)

lemma edgeDistance_geometry:
  assumes "coordsWithin (2 ^ 400) (point s)" "coordsWithin (2 ^ 400) (p0 e)"
    "coordsWithin (2 ^ 400) (p1 e)"
  shows "\<exists>d. edgeDistance s e = Fin d \<and>
      (\<exists>t. 0 \<le> t \<and> t \<le> 1 \<and> d = dist3 (point s) (pointOnSegment (p0 e) (p1 e) t)) \<and>
      (if dist3 (p0 e) (p1 e) < 1 / 10 ^ 6
       then d = dist3 (point s) (p0 e) \<and>
            (\<forall>t. 0 \<le> t \<and> t \<le> 1 \<longrightarrow>
               d < dist3 (point s) (pointOnSegment (p0 e) (p1 e) t) + 1 / 10 ^ 6)
       else (\<forall>t. 0 \<le> t \<and> t \<le> 1 \<longrightarrow>
               d \<le> dist3 (point s) (pointOnSegment (p0 e) (p1 e) t)))"
proof -
  let ?d = "exactDistance (point s) (p0 e) (p1 e)"
  have d: "edgeDistance s e = Fin ?d"
    unfolding edgeDistance_def by (rule pointToSegmentDistance_exact[OF assms])
  show ?thesis
  proof (cases "dist3 (p0 e) (p1 e) < 1 / 10 ^ 6")
    case True
    have a: "?d = dist3 (point s) (p0 e)" by (rule exactDistance_short[OF True])
    have "?d = dist3 (point s) (pointOnSegment (p0 e) (p1 e) 0)"
      by (simp only: a pointOnSegment_0)
    then have b: "\<exists>t. 0 \<le> t \<and> t \<le> 1 \<and> ?d = dist3 (point s) (pointOnSegment (p0 e) (p1 e) t)"
      by (intro exI[of _ 0]) simp
    have c: "\<forall>t. 0 \<le> t \<and> t \<le> 1 \<longrightarrow> ?d < dist3 (point s) (pointOnSegment (p0 e) (p1 e) t) + 1 / 10 ^ 6"
      using exactDistance_short_near[OF True] by blast
    show ?thesis using d a b c True by (intro exI[of _ ?d]) (simp only: if_True simp_thms)
  next
    case False
    show ?thesis using d exactDistance_long[OF False, of "point s"] False
      by (intro exI[of _ ?d]) auto
  qed
qed

section \<open>The orchestrator's tool list\<close>

lemma collectTools_sound:
  "tool \<in> set (collectTools K r segs edges acc) \<Longrightarrow>
   tool \<in> set acc \<or>
   (\<exists>edge\<in>set edges. 5 < dihedralAngle edge \<and> dihedralAngle edge < 175 \<and>
      createFilletCuttingTool K edge r segs = Some tool \<and> 1 / 10 ^ 9 < volume K tool)"
proof (induction edges arbitrary: acc)
  case Nil
  then show ?case by simp
next
  case (Cons e es)
  show ?case
  proof (cases "dihedralAngle e > 5 \<and> dihedralAngle e < 175")
    case False
    then have "tool \<in> set (collectTools K r segs es acc)"
      using Cons.prems by auto
    from Cons.IH[OF this] show ?thesis by auto
  next
    case True
    show ?thesis
    proof (cases "createFilletCuttingTool K e r segs")
      case None
      then have "tool \<in> set (collectTools K r segs es acc)"
        using Cons.prems True by simp
      from Cons.IH[OF this] show ?thesis by auto
    next
      case (Some t)
      show ?thesis
      proof (cases "volume K t > 1 / 10 ^ 9")
        case False
        then have "tool \<in> set (collectTools K r segs es acc)"
          using Cons.prems True Some by simp
        from Cons.IH[OF this] show ?thesis by auto
      next
        case vol: True
        then have "tool \<in> set (collectTools K r segs es (acc @ [t]))"
          using Cons.prems True Some by simp
        from Cons.IH[OF this] show ?thesis using True Some vol by auto
      qed
    qed
  qed
qed

lemma selectEdges_Nil: "selectEdges [] sel = []"
  by (cases sel) (simp_all add: selectByPoint_def selectByAngle_def)

lemma fillet_result:
  "0 < radius options \<Longrightarrow>
   filletWithManifold K mf options = Inr (subtractTools K mf (filletCuttingTools K mf options))"
  by (simp add: filletWithManifold_def filletCuttingTools_def filletSelected_def
      filletSegments_def Let_def selectEdges_Nil)

section \<open>The logged orchestrator\<close>

lemma collectToolsLogged_result:
  "snd (collectToolsLogged K r segs edges (steps, acc)) = collectTools K r segs edges acc"
  by (induction edges arbitrary: steps acc) (simp_all split: option.splits)

lemma subtractToolsLogged_result:
  "snd (subtractToolsLogged K (steps, result) tools) = subtractTools K result tools"
  by (induction tools arbitrary: steps result) simp_all

lemma collectToolsLogged_extends:
  "\<exists>more. fst (collectToolsLogged K r segs edges (steps, acc)) = steps @ more"
proof (induction edges arbitrary: steps acc)
  case Nil
  then show ?case by simp
next
  case (Cons e es)
  show ?case
    using Cons[of steps acc] Cons[of "steps @ [CallCreateTool e]" acc]
    by (auto split: option.splits)
       (metis Cons append_assoc)+
qed

lemma subtractToolsLogged_extends:
  "\<exists>more. fst (subtractToolsLogged K (steps, result) tools) = steps @ more"
proof (induction tools arbitrary: steps result)
  case Nil
  then show ?case by simp
next
  case (Cons t ts)
  from Cons[of "steps @ [CallSubtract result t]" "subtract K result t"]
  show ?case by auto
qed

lemma filletWithManifoldLogged_result:
  "snd (filletWithManifoldLogged K mf options) = filletWithManifold K mf options"
proof -
  let ?r = "radius options"
  let ?segs = "case segments options of Some n \<Rightarrow> n | None \<Rightarrow> 16"
  let ?sel = "selectEdges (extractEdges (getMesh K mf)) (selection options)"
  let ?steps2 = "[CallExtractEdges mf, CallSelectEdges (extractEdges (getMesh K mf)) (selection options)]"
  obtain steps3 tools where c: "collectToolsLogged K ?r ?segs ?sel (?steps2, []) = (steps3, tools)"
    by (cases "collectToolsLogged K ?r ?segs ?sel (?steps2, [])")
  have t: "tools = collectTools K ?r ?segs ?sel []"
    using collectToolsLogged_result[of K ?r ?segs ?sel ?steps2 "[]"] c by simp
  obtain steps4 res where s: "subtractToolsLogged K (steps3, mf) tools = (steps4, res)"
    by (cases "subtractToolsLogged K (steps3, mf) tools")
  have u: "res = subtractTools K mf tools"
    using subtractToolsLogged_result[of K steps3 mf tools] s by simp
  show ?thesis
    using c s t u
    by (simp add: filletWithManifoldLogged_def filletWithManifold_def Let_def)
qed

lemma filletWithManifoldLogged_starts:
  assumes "0 < radius options"
  shows "\<exists>more. fst (filletWithManifoldLogged K mf options) = CallExtractEdges mf # more"
proof -
  let ?r = "radius options"
  let ?segs = "case segments options of Some n \<Rightarrow> n | None \<Rightarrow> 16"
  let ?sel = "selectEdges (extractEdges (getMesh K mf)) (selection options)"
  let ?steps2 = "[CallExtractEdges mf, CallSelectEdges (extractEdges (getMesh K mf)) (selection options)]"
  obtain steps3 tools where c: "collectToolsLogged K ?r ?segs ?sel (?steps2, []) = (steps3, tools)"
    by (cases "collectToolsLogged K ?r ?segs ?sel (?steps2, [])")
  obtain m3 where m3: "steps3 = ?steps2 @ m3"
    using collectToolsLogged_extends[of K ?r ?segs ?sel ?steps2 "[]"] c by auto
  obtain steps4 res where s: "subtractToolsLogged K (steps3, mf) tools = (steps4, res)"
    by (cases "subtractToolsLogged K (steps3, mf) tools")
  obtain m4 where m4: "steps4 = steps3 @ m4"
    using subtractToolsLogged_extends[of K steps3 mf tools] s by auto
  show ?thesis
    using assms c s m3 m4
    by (simp add: filletWithManifoldLogged_def Let_def)
qed

section \<open>Tubes: the index loop builds the consecutive segments\<close>

lemma consecutivePairs_nth:
  "consecutivePairs ps = map (\<lambda>i. (ps ! i, ps ! (i + 1))) [0..<length ps - 1]"
proof (induction ps rule: consecutivePairs.induct)
  case (1 p q ps)
  have "[0..<length (p # q # ps) - 1] = 0 # map Suc [0..<length (q # ps) - 1]"
    by (simp add: upt_conv_Cons map_Suc_upt del: upt_Suc)
  then show ?case using 1 by (simp add: comp_def del: upt_Suc)
qed simp_all

lemma pathSegments_eq_loop:
  "map (\<lambda>i. hull_solids K [map (\<lambda>p. translate K (sphere K r segs) p) path ! i,
                            map (\<lambda>p. translate K (sphere K r segs) p) path ! (i + 1)])
     [0..<length path - 1]
   = pathSegments K path r segs"
  unfolding pathSegments_def consecutivePairs_nth map_map
  by (rule map_cong) (auto simp add: tubeSegment_def sphereAt_def)

lemma pipeAlongPath_result:
  assumes "2 \<le> length path"
  shows "pipeAlongPath K path r segs = Inr (unionOfSegments K (pathSegments K path r segs))"
proof -
  have "length (pathSegments K path r segs) = length path - 1"
    by (simp add: pathSegments_def consecutivePairs_nth)
  then have ne: "pathSegments K path r segs \<noteq> []"
    using assms by auto
  show ?thesis
  proof (cases "pathSegments K path r segs")
    case Nil
    with ne show ?thesis by simp
  next
    case (Cons x xs)
    show ?thesis
      using assms unfolding pipeAlongPath_def Let_def pathSegments_eq_loop unionOfSegments_def Cons
      by (cases xs) simp_all
  qed
qed

lemma length_extendedPath: "length (extendedPath path r ext) = length path + 2"
  by (simp add: extendedPath_def Let_def split: prod.splits)

section \<open>Key strings: splitting and parsing invert the template\<close>

lemma of_char_digit_char: "d < 10 \<Longrightarrow> (of_char (digit_char d) :: nat) = 48 + d"
  by (simp add: digit_char_def)

lemma is_digit_digit_char: "d < 10 \<Longrightarrow> is_digit (digit_char d)"
  by (simp add: is_digit_def of_char_digit_char)

lemma digit_val_digit_char: "d < 10 \<Longrightarrow> digit_val (digit_char d) = d"
  by (simp add: digit_val_def of_char_digit_char)

lemma not_is_digit_underscore: "\<not> is_digit (CHR ''_'')"
  by (simp add: is_digit_def)

lemma string_of_nat_digits: "c \<in> set (string_of_nat n) \<Longrightarrow> is_digit c"
proof (induction n rule: string_of_nat.induct)
  case (1 n)
  show ?case
  proof (cases "n < 10")
    case True
    then show ?thesis using "1.prems" by (simp add: string_of_nat.simps[of n] is_digit_digit_char)
  next
    case False
    then show ?thesis using "1.prems" "1.IH"
      by (auto simp add: string_of_nat.simps[of n] is_digit_digit_char)
  qed
qed

lemma string_of_nat_nonempty: "string_of_nat n \<noteq> []"
  by (simp add: string_of_nat.simps[of n])

lemma underscore_notin_string_of_nat: "CHR ''_'' \<notin> set (string_of_nat n)"
  using string_of_nat_digits not_is_digit_underscore by blast

lemma digits_value_string_of_nat:
  "foldl (\<lambda>acc c. acc * 10 + digit_val c) 0 (string_of_nat n) = n"
proof (induction n rule: string_of_nat.induct)
  case (1 n)
  show ?case
  proof (cases "n < 10")
    case True
    then show ?thesis by (simp add: string_of_nat.simps[of n] digit_val_digit_char)
  next
    case False
    then show ?thesis using "1.IH"
      by (simp add: string_of_nat.simps[of n] digit_val_digit_char)
  qed
qed

lemma parseInt_string_of_nat: "parseInt (string_of_nat n) = Some n"
proof -
  have tw: "takeWhile is_digit (string_of_nat n) = string_of_nat n"
    by (simp add: takeWhile_eq_all_conv string_of_nat_digits)
  show ?thesis
    unfolding parseInt_def tw
    by (simp add: string_of_nat_nonempty digits_value_string_of_nat)
qed

lemma splitOn_no_sep: "c \<notin> set xs \<Longrightarrow> splitOn c xs = [xs]"
  by (induction xs) auto

lemma splitOn_sep: "c \<notin> set xs \<Longrightarrow> splitOn c (xs @ c # ys) = xs # splitOn c ys"
  by (induction xs) auto

lemma splitOn_edgeKey:
  "splitOn (CHR ''_'') (edgeKey a b) = [string_of_nat (min a b), string_of_nat (max a b)]"
  by (simp add: edgeKey_def splitOn_sep splitOn_no_sep underscore_notin_string_of_nat min_def max_def)

lemma string_of_nat_inj: "string_of_nat a = string_of_nat b \<Longrightarrow> a = b"
  by (metis parseInt_string_of_nat option.inject)

lemma edgeKey_eq_iff: "edgeKey a b = edgeKey c d \<longleftrightarrow> min a b = min c d \<and> max a b = max c d"
proof
  assume "edgeKey a b = edgeKey c d"
  then have "splitOn (CHR ''_'') (edgeKey a b) = splitOn (CHR ''_'') (edgeKey c d)" by simp
  then show "min a b = min c d \<and> max a b = max c d"
    by (simp add: splitOn_edgeKey) (metis string_of_nat_inj)
next
  assume "min a b = min c d \<and> max a b = max c d"
  then show "edgeKey a b = edgeKey c d"
    by (auto simp add: edgeKey_def min_def max_def split: if_splits)
qed

lemma edgeKey_min_max: "edgeKey a b = edgeKey (min a b) (max a b)"
  by (simp add: edgeKey_eq_iff)

section \<open>The map after the loop over the triangles\<close>

lemma addToMap_addRec: "addToMap k e M = addRec k e M"
proof (induction M)
  case Nil
  then show ?case by (simp add: addToMap_def)
next
  case (Cons p M)
  obtain k' l where p: "p = (k', l)" by (cases p)
  show ?case
  proof (cases "k' = k")
    case True
    then show ?thesis by (simp add: addToMap_def p)
  next
    case False
    have "addToMap k e (p # M) = p # addToMap k e M"
      using False by (simp add: addToMap_def p Let_def split: option.splits)
    then show ?thesis using Cons.IH False by (simp add: p)
  qed
qed

lemma insertAll_simps [simp]:
  "insertAll [] M = M"
  "insertAll ((k, e) # xs) M = insertAll xs (addRec k e M)"
  "insertAll (xs @ ys) M = insertAll ys (insertAll xs M)"
  by (simp_all add: insertAll_def)

lemma processTriangle_insertAll: "processTriangle m M t = insertAll (sidesOfTriangle m t) M"
  by (simp add: processTriangle_def sidesOfTriangle_def Let_def addToMap_addRec insertAll_def)

lemma foldl_processTriangle:
  "foldl (processTriangle m) M ts = insertAll (concat (map (sidesOfTriangle m) ts)) M"
  by (induction ts arbitrary: M) (simp_all add: processTriangle_insertAll)

lemma buildEdgeToTris_insertAll: "buildEdgeToTris m = insertAll (meshSides m) []"
  by (simp add: buildEdgeToTris_def meshSides_def foldl_processTriangle)

lemma map_of_addRec:
  "map_of (addRec k e M) k' =
     (if k' = k then Some ((case map_of M k of Some l \<Rightarrow> l | None \<Rightarrow> []) @ [e]) else map_of M k')"
  by (induction M) auto

lemma keys_addRec:
  "map fst (addRec k e M) = (if k \<in> set (map fst M) then map fst M else map fst M @ [k])"
  by (induction M) (auto split: if_splits)

lemma set_keys_addRec: "set (map fst (addRec k e M)) = insert k (set (map fst M))"
  by (simp add: keys_addRec insert_absorb)

lemma distinct_addRec: "distinct (map fst M) \<Longrightarrow> distinct (map fst (addRec k e M))"
  by (simp add: keys_addRec)

lemma total_addRec:
  "sum_list (map (\<lambda>p. length (snd p)) (addRec k e M)) = Suc (sum_list (map (\<lambda>p. length (snd p)) M))"
  by (induction M) auto

lemma keys_insertAll: "set (map fst (insertAll xs M)) = set (map fst M) \<union> set (map fst xs)"
proof (induction xs arbitrary: M)
  case Nil
  show ?case by simp
next
  case (Cons x xs)
  obtain k e where x: "x = (k, e)" by (cases x)
  show ?case unfolding x insertAll_simps Cons.IH set_keys_addRec by simp
qed

lemma distinct_insertAll: "distinct (map fst M) \<Longrightarrow> distinct (map fst (insertAll xs M))"
proof (induction xs arbitrary: M)
  case Nil
  then show ?case by simp
next
  case (Cons x xs)
  obtain k e where x: "x = (k, e)" by (cases x)
  show ?case unfolding x insertAll_simps
    by (rule Cons.IH) (rule distinct_addRec[OF Cons.prems])
qed

lemma total_insertAll:
  "sum_list (map (\<lambda>p. length (snd p)) (insertAll xs M)) =
     sum_list (map (\<lambda>p. length (snd p)) M) + length xs"
proof (induction xs arbitrary: M)
  case Nil
  show ?case by simp
next
  case (Cons x xs)
  obtain k e where x: "x = (k, e)" by (cases x)
  show ?case unfolding x insertAll_simps Cons.IH total_addRec by simp
qed

lemma map_of_insertAll:
  "map_of (insertAll xs M) k =
     (if k \<in> set (map fst M) \<union> set (map fst xs)
      then Some ((case map_of M k of Some l \<Rightarrow> l | None \<Rightarrow> []) @ entriesFor k xs)
      else None)"
proof (induction xs arbitrary: M)
  case Nil
  show ?case
  proof (cases "map_of M k")
    case None
    then have "k \<notin> set (map fst M)" by (simp add: map_of_eq_None_iff)
    then show ?thesis using None by (simp add: entriesFor_def)
  next
    case (Some l)
    then have "k \<in> set (map fst M)" by (metis map_of_eq_None_iff option.distinct(1) set_map)
    then show ?thesis using Some by (simp add: entriesFor_def)
  qed
next
  case (Cons x xs)
  obtain k' e where x: "x = (k', e)" by (cases x)
  show ?case
    unfolding x insertAll_simps Cons.IH set_keys_addRec
    by (cases "map_of M k") (simp_all add: map_of_addRec entriesFor_def)
qed

lemma in_buildEdgeToTris_iff:
  "(k, ts) \<in> set (buildEdgeToTris m) \<longleftrightarrow>
     k \<in> set (map fst (meshSides m)) \<and> ts = entriesFor k (meshSides m)"
proof -
  have d: "distinct (map fst (buildEdgeToTris m))"
    by (simp add: buildEdgeToTris_insertAll distinct_insertAll)
  have "(k, ts) \<in> set (buildEdgeToTris m) \<longleftrightarrow> map_of (buildEdgeToTris m) k = Some ts"
    using d by simp
  also have "\<dots> \<longleftrightarrow> k \<in> set (map fst (meshSides m)) \<and> ts = entriesFor k (meshSides m)"
    by (auto simp add: buildEdgeToTris_insertAll map_of_insertAll)
  finally show ?thesis .
qed

section \<open>The extracted edges\<close>

lemma edgeFromEntry_edgeKey:
  "edgeFromEntry m (edgeKey a b, ts) =
     (if length ts \<noteq> 2 then [] else [edgeOf m (min a b) (max a b) ts])"
  by (simp add: edgeFromEntry_def splitOn_edgeKey parseInt_string_of_nat edgeOf_def dot3_def
      clamp_def Let_def split: prod.splits)

lemma edgeKey_eq_joins: "edgeKey x y = edgeKey a b \<longleftrightarrow> joins a b (x, y)"
  by (auto simp add: edgeKey_eq_iff min_def max_def split: if_splits)

lemma meshSides_keys:
  "map fst (meshSides m) = map (\<lambda>(a, b). edgeKey a b) (concat (map triangleSides (triangles m)))"
  by (simp add: meshSides_def triangles_def sidesOfTriangle_def map_concat comp_def)

lemma length_meshSides: "length (meshSides m) = 3 * numTris m"
proof -
  have "length (meshSides m) = sum_list (map (\<lambda>t. 3) [0..<numTris m])"
    unfolding meshSides_def length_concat map_map
    by (rule arg_cong[where f = sum_list]) (simp add: sidesOfTriangle_def)
  then show ?thesis by (simp add: sum_list_triv)
qed

lemma length_entriesFor:
  "length (entriesFor k xs) = length (filter (\<lambda>k'. k' = k) (map fst xs))"
  by (simp add: entriesFor_def filter_map comp_def)

lemma length_entriesFor_edgeKey:
  "length (entriesFor (edgeKey a b) (meshSides m)) = sideCount m a b"
proof -
  have "filter (\<lambda>k'. k' = edgeKey a b) (map (\<lambda>(x, y). edgeKey x y) ps)
        = map (\<lambda>(x, y). edgeKey x y) (filter (joins a b) ps)" for ps
    by (induction ps) (auto simp add: edgeKey_eq_joins)
  then show ?thesis
    by (simp add: length_entriesFor meshSides_keys sideCount_def)
qed

lemma key_in_meshSides:
  "k \<in> set (map fst (meshSides m)) \<longleftrightarrow>
     (\<exists>(a, b)\<in>set (concat (map triangleSides (triangles m))). k = edgeKey a b)"
  unfolding meshSides_keys by auto

lemma in_extractEdges_iff:
  "e \<in> set (extractEdges m) \<longleftrightarrow>
     (\<exists>(a, b)\<in>set (concat (map triangleSides (triangles m))).
        sideCount m a b = 2 \<and>
        e = edgeOf m (min a b) (max a b) (entriesFor (edgeKey a b) (meshSides m)))"
proof
  assume "e \<in> set (extractEdges m)"
  then obtain k ts where kt: "(k, ts) \<in> set (buildEdgeToTris m)" and e: "e \<in> set (edgeFromEntry m (k, ts))"
    by (auto simp add: extractEdges_def)
  from kt have k: "k \<in> set (map fst (meshSides m))" and ts: "ts = entriesFor k (meshSides m)"
    by (simp_all add: in_buildEdgeToTris_iff)
  from k obtain a b where ab: "(a, b) \<in> set (concat (map triangleSides (triangles m)))" and kk: "k = edgeKey a b"
    unfolding key_in_meshSides by blast
  from e have "length ts = 2 \<and> e = edgeOf m (min a b) (max a b) ts"
    unfolding kk edgeFromEntry_edgeKey by (simp split: if_splits)
  then have "sideCount m a b = 2 \<and> e = edgeOf m (min a b) (max a b) (entriesFor (edgeKey a b) (meshSides m))"
    using ts kk length_entriesFor_edgeKey by simp
  with ab show "\<exists>(a, b)\<in>set (concat (map triangleSides (triangles m))).
        sideCount m a b = 2 \<and>
        e = edgeOf m (min a b) (max a b) (entriesFor (edgeKey a b) (meshSides m))"
    by blast
next
  assume "\<exists>(a, b)\<in>set (concat (map triangleSides (triangles m))).
        sideCount m a b = 2 \<and>
        e = edgeOf m (min a b) (max a b) (entriesFor (edgeKey a b) (meshSides m))"
  then obtain a b where ab: "(a, b) \<in> set (concat (map triangleSides (triangles m)))"
    and c: "sideCount m a b = 2"
    and e: "e = edgeOf m (min a b) (max a b) (entriesFor (edgeKey a b) (meshSides m))"
    by blast
  let ?k = "edgeKey a b" and ?ts = "entriesFor (edgeKey a b) (meshSides m)"
  have "?k \<in> set (map fst (meshSides m))"
    unfolding key_in_meshSides using ab by blast
  then have kt: "(?k, ?ts) \<in> set (buildEdgeToTris m)"
    by (simp add: in_buildEdgeToTris_iff)
  have "length ?ts = 2" using c by (simp add: length_entriesFor_edgeKey)
  then have "e \<in> set (edgeFromEntry m (?k, ?ts))"
    unfolding edgeFromEntry_edgeKey using e by simp
  with kt show "e \<in> set (extractEdges m)"
    unfolding extractEdges_def by auto
qed

lemma sideCount_pos_iff:
  "0 < sideCount m a b \<longleftrightarrow> (\<exists>p\<in>set (concat (map triangleSides (triangles m))). joins a b p)"
  unfolding sideCount_def by (simp add: filter_empty_conv) 

lemma joins_min_max: "joins (min a b) (max a b) p \<longleftrightarrow> joins a b p"
  by (cases p) (auto simp: min_def max_def)

lemma joins_set: "joins a b (x, y) \<longleftrightarrow> {x, y} = {a, b}"
  by (auto simp: doubleton_eq_iff)

lemma extractEdges_pair_iff:
  "(\<exists>e\<in>set (extractEdges m). {v0 e, v1 e} = {a, b}) \<longleftrightarrow> sideCount m a b = 2"
proof
  assume "\<exists>e\<in>set (extractEdges m). {v0 e, v1 e} = {a, b}"
  then obtain e where e: "e \<in> set (extractEdges m)" and ab: "{v0 e, v1 e} = {a, b}" by blast
  from e obtain x y where c: "sideCount m x y = 2"
    and ee: "e = edgeOf m (min x y) (max x y) (entriesFor (edgeKey x y) (meshSides m))"
    unfolding in_extractEdges_iff by blast
  have "{min x y, max x y} = {a, b}" using ab ee by (simp add: edgeOf_def)
  then have "joins a b (x, y)" by (auto simp: doubleton_eq_iff min_def max_def split: if_splits)
  then have "sideCount m a b = sideCount m x y"
    unfolding sideCount_def
    by (intro arg_cong[where f = length] filter_cong refl) (auto split: prod.splits)
  with c show "sideCount m a b = 2" by simp
next
  assume c: "sideCount m a b = 2"
  then have "0 < sideCount m a b" by simp
  then obtain x y where xy: "(x, y) \<in> set (concat (map triangleSides (triangles m)))" and j: "joins a b (x, y)"
    unfolding sideCount_pos_iff by (metis surj_pair)
  have same: "sideCount m x y = sideCount m a b"
    unfolding sideCount_def using j
    by (intro arg_cong[where f = length] filter_cong refl) (auto split: prod.splits)
  let ?e = "edgeOf m (min x y) (max x y) (entriesFor (edgeKey x y) (meshSides m))"
  have "?e \<in> set (extractEdges m)"
    unfolding in_extractEdges_iff using xy same c by auto
  moreover have "{v0 ?e, v1 ?e} = {a, b}"
    using j by (auto simp add: edgeOf_def min_def max_def)
  ultimately show "\<exists>e\<in>set (extractEdges m). {v0 e, v1 e} = {a, b}" by blast
qed

lemma sides_of_distinct_triangle:
  "distinctCorners t \<Longrightarrow>
   length (filter (joins a b) (triangleSides t)) = (if hasEdge t a b then 1 else 0)"
  by (cases t) (auto simp add: hasEdge_def)

lemma length_filter_concat:
  "length (filter P (concat xss)) = sum_list (map (\<lambda>xs. length (filter P xs)) xss)"
  by (induction xss) auto

lemma length_filter_sum:
  "length (filter P xs) = sum_list (map (\<lambda>x. if P x then 1 else 0) xs)"
  by (induction xs) auto

lemma sideCount_nondegenerate:
  assumes "nondegenerate m"
  shows "sideCount m a b = trianglesWithEdge m a b"
proof -
  have eq: "map (\<lambda>t. length (filter (joins a b) (triangleSides t))) (triangles m)
        = map (\<lambda>t. if hasEdge t a b then 1 else 0) (triangles m)"
    using assms
    by (intro map_cong refl sides_of_distinct_triangle) (simp add: nondegenerate_def list_all_iff)
  have "sideCount m a b
        = sum_list (map (\<lambda>t. length (filter (joins a b) (triangleSides t))) (triangles m))"
    by (simp add: sideCount_def length_filter_concat comp_def)
  also have "\<dots> = sum_list (map (\<lambda>t. if hasEdge t a b then 1 else 0) (triangles m))"
    by (simp only: eq)
  also have "\<dots> = trianglesWithEdge m a b"
    by (simp add: trianglesWithEdge_def length_filter_sum)
  finally show ?thesis .
qed

lemma length_extractEdges:
  "length (extractEdges m) = length (filter (\<lambda>p. length (snd p) = 2) (buildEdgeToTris m))"
proof -
  have eq: "map (\<lambda>p. length (edgeFromEntry m p)) (buildEdgeToTris m)
        = map (\<lambda>p. if length (snd p) = 2 then 1 else 0) (buildEdgeToTris m)"
  proof (intro map_cong refl)
    fix p assume p: "p \<in> set (buildEdgeToTris m)"
    obtain k ts where kt: "p = (k, ts)" by (cases p)
    from p have "k \<in> set (map fst (meshSides m))"
      unfolding kt by (simp add: in_buildEdgeToTris_iff)
    then obtain a b where "k = edgeKey a b"
      unfolding key_in_meshSides by blast
    then show "length (edgeFromEntry m p) = (if length (snd p) = 2 then 1 else 0)"
      by (simp add: kt edgeFromEntry_edgeKey)
  qed
  have "length (extractEdges m) = sum_list (map (\<lambda>p. length (edgeFromEntry m p)) (buildEdgeToTris m))"
    by (simp add: extractEdges_def length_concat comp_def)
  also have "\<dots> = sum_list (map (\<lambda>p. if length (snd p) = 2 then 1 else 0) (buildEdgeToTris m))"
    by (simp only: eq)
  also have "\<dots> = length (filter (\<lambda>p. length (snd p) = 2) (buildEdgeToTris m))"
    by (simp add: length_filter_sum)
  finally show ?thesis .
qed

lemma total_buildEdgeToTris:
  "sum_list (map (\<lambda>p. length (snd p)) (buildEdgeToTris m)) = 3 * numTris m"
  by (simp add: buildEdgeToTris_insertAll total_insertAll length_meshSides)

lemma extractEdges_count:
  assumes "\<forall>(a, b)\<in>set (concat (map triangleSides (triangles m))). sideCount m a b = 2"
  shows "2 * length (extractEdges m) = 3 * numTris m"
proof -
  have two: "length (snd p) = 2" if "p \<in> set (buildEdgeToTris m)" for p
  proof -
    obtain k ts where kt: "p = (k, ts)" by (cases p)
    from that have k: "k \<in> set (map fst (meshSides m))" and ts: "ts = entriesFor k (meshSides m)"
      unfolding kt by (simp_all add: in_buildEdgeToTris_iff)
    from k obtain a b where ab: "(a, b) \<in> set (concat (map triangleSides (triangles m)))" and kk: "k = edgeKey a b"
      unfolding key_in_meshSides by blast
    from assms ab have "sideCount m a b = 2" by blast
    then show ?thesis by (simp add: kt ts kk length_entriesFor_edgeKey)
  qed
  have "length (extractEdges m) = length (buildEdgeToTris m)"
    unfolding length_extractEdges using two by (simp add: filter_id_conv)
  moreover have "sum_list (map (\<lambda>p. length (snd p)) (buildEdgeToTris m))
      = sum_list (map (\<lambda>p. 2) (buildEdgeToTris m))"
    by (rule arg_cong[where f = sum_list], rule map_cong) (simp_all add: two)
  ultimately show ?thesis
    using total_buildEdgeToTris[of m] by (simp add: sum_list_triv)
qed

lemma closedSurface_sideCount:
  assumes "nondegenerate m" "closedSurface m"
  shows "\<forall>(a, b)\<in>set (concat (map triangleSides (triangles m))). sideCount m a b = 2"
  using assms(2) unfolding closedSurface_def sideCount_nondegenerate[OF assms(1)]
  by (auto simp add: list_all_iff)

lemma numTris_mesh_ok: "mesh_ok m \<Longrightarrow> numTris m = length (triVerts m) div 3"
proof -
  have "n mod 3 = 0 \<Longrightarrow> (n + 2) div 3 = n div 3" for n :: nat by presburger
  then show "mesh_ok m \<Longrightarrow> numTris m = length (triVerts m) div 3"
    by (simp add: mesh_ok_def numTris_def)
qed

lemma extractEdges_ordered:
  assumes "e \<in> set (extractEdges m)"
  shows "v0 e \<le> v1 e \<and> (nondegenerate m \<longrightarrow> v0 e < v1 e)"
proof -
  from assms obtain a b where ab: "(a, b) \<in> set (concat (map triangleSides (triangles m)))"
    and e: "e = edgeOf m (min a b) (max a b) (entriesFor (edgeKey a b) (meshSides m))"
    unfolding in_extractEdges_iff by blast
  have le: "v0 e \<le> v1 e" by (simp add: e edgeOf_def)
  have "a \<noteq> b" if "nondegenerate m"
  proof -
    from ab obtain t where t: "t \<in> set (triangles m)" and s: "(a, b) \<in> set (triangleSides t)" by auto
    from that t have "distinctCorners t" by (simp add: nondegenerate_def list_all_iff)
    with s show ?thesis by (cases t) auto
  qed
  then have "nondegenerate m \<longrightarrow> v0 e < v1 e" by (auto simp add: e edgeOf_def)
  with le show ?thesis by simp
qed




section \<open>The example meshes, evaluated\<close>

lemma upt_0_2: "[0..<2] = [0, Suc 0]"
  by (simp add: numeral_2_eq_2)

lemma string_of_nat_small: "n < 10 \<Longrightarrow> string_of_nat n = [digit_char n]"
  by (simp add: string_of_nat.simps[of n])

lemma digit_chars:
  "digit_char 0 = CHR ''0''" "digit_char (Suc 0) = CHR ''1''" "digit_char 2 = CHR ''2''" "digit_char 3 = CHR ''3''"
  by code_simp+

lemma extractEdges_emptyMesh: "extractEdges emptyMesh = []"
  by (simp add: extractEdges_def buildEdgeToTris_def numTris_def emptyMesh_def)

lemma normals_hinge:
  "computeNormal (0, 0, 0) (1, 0, 0) (0, 1, 0) = (0, 0, 1)"
  "computeNormal (1, 0, 0) (0, 0, 0) (0, 0, 1) = (0, 1, 0)"
  by (simp_all add: computeNormal_def Let_def)

lemma buildEdgeToTris_hinge:
  "buildEdgeToTris hinge =
     [(''0_1'', [\<lparr>tri = 0, normal = (0, 0, 1)\<rparr>, \<lparr>tri = 1, normal = (0, 1, 0)\<rparr>]),
      (''1_2'', [\<lparr>tri = 0, normal = (0, 0, 1)\<rparr>]),
      (''0_2'', [\<lparr>tri = 0, normal = (0, 0, 1)\<rparr>]),
      (''0_3'', [\<lparr>tri = 1, normal = (0, 1, 0)\<rparr>]),
      (''1_3'', [\<lparr>tri = 1, normal = (0, 1, 0)\<rparr>])]"
  by (simp add: buildEdgeToTris_def numTris_def hinge_def upt_0_2 processTriangle_def getVertex_def
      normals_hinge addToMap_addRec edgeKey_def string_of_nat_small digit_chars Let_def)

lemma extractEdges_hinge: "extractEdges hinge = [hingeEdge]"
proof -
  have "edgeFromEntry hinge (''0_1'', [\<lparr>tri = 0, normal = (0, 0, 1)\<rparr>, \<lparr>tri = 1, normal = (0, 1, 0)\<rparr>])
        = [hingeEdge]"
    by (simp add: edgeFromEntry_def parseInt_def is_digit_def digit_val_def hingeEdge_def
        hinge_def getVertex_def Let_def)
  then show ?thesis
    by (simp add: extractEdges_def buildEdgeToTris_hinge edgeFromEntry_def)
qed

lemma mesh_ok_hinge: "mesh_ok hinge"
  by (simp add: mesh_ok_def hinge_def)

lemma triangles_hinge: "triangles hinge = [(0, 1, 2), (1, 0, 3)]"
  by (simp add: triangles_def numTris_def hinge_def upt_0_2)

lemma nondegenerate_hinge: "nondegenerate hinge"
  by (simp add: nondegenerate_def triangles_hinge)

lemma trianglesWithEdge_hinge:
  "trianglesWithEdge hinge 0 (Suc 0) = 2" "trianglesWithEdge hinge (Suc 0) 2 = Suc 0"
  by (simp_all add: trianglesWithEdge_def triangles_hinge hasEdge_def)

lemma mesh_ok_pillow: "mesh_ok pillow"
  by (simp add: mesh_ok_def pillow_def)

lemma triangles_pillow: "triangles pillow = [(0, 1, 2), (0, 2, 1)]"
  by (simp add: triangles_def numTris_def pillow_def upt_0_2)

lemma nondegenerate_pillow: "nondegenerate pillow"
  by (simp add: nondegenerate_def triangles_pillow)

lemma closedSurface_pillow: "closedSurface pillow"
  by (simp add: closedSurface_def trianglesWithEdge_def triangles_pillow hasEdge_def)

lemma numTris_pillow: "numTris pillow = 2"
  by (simp add: numTris_def pillow_def)

lemma mesh_ok_foldedTriangle: "mesh_ok foldedTriangle"
  by (simp add: mesh_ok_def foldedTriangle_def)

lemma triangles_foldedTriangle: "triangles foldedTriangle = [(0, 0, 1)]"
  by (simp add: triangles_def numTris_def foldedTriangle_def)

lemma trianglesWithEdge_foldedTriangle: "trianglesWithEdge foldedTriangle 0 (Suc 0) = Suc 0"
  by (simp add: trianglesWithEdge_def triangles_foldedTriangle hasEdge_def)

lemma sideCount_foldedTriangle: "sideCount foldedTriangle 0 (Suc 0) = 2"
  by (simp add: sideCount_def triangles_foldedTriangle)

lemma mesh_ok_foldedPair: "mesh_ok foldedPair"
  by (simp add: mesh_ok_def foldedPair_def)

lemma triangles_foldedPair: "triangles foldedPair = [(0, 0, 1), (0, 0, 1)]"
  by (simp add: triangles_def numTris_def foldedPair_def upt_0_2)

lemma closedSurface_foldedPair: "closedSurface foldedPair"
  by (simp add: closedSurface_def trianglesWithEdge_def triangles_foldedPair hasEdge_def)

lemma numTris_foldedPair: "numTris foldedPair = 2"
  by (simp add: numTris_def foldedPair_def)

lemma mesh_ok_loopPair: "mesh_ok loopPair"
  by (simp add: mesh_ok_def loopPair_def)

lemma triangles_loopPair: "triangles loopPair = [(0, 0, 1), (0, 0, 2)]"
  by (simp add: triangles_def numTris_def loopPair_def upt_0_2)

lemma sideCount_loopPair: "sideCount loopPair 0 0 = 2"
  by (simp add: sideCount_def triangles_loopPair)

lemma normal_foldedTriangle: "computeNormal (0, 0, 0) (0, 0, 0) (1, 0, 0) = (0, 0, 0)"
  by (simp add: computeNormal_def Let_def)

lemma buildEdgeToTris_foldedTriangle:
  "buildEdgeToTris foldedTriangle =
     [(''0_0'', [\<lparr>tri = 0, normal = (0, 0, 0)\<rparr>]),
      (''0_1'', [\<lparr>tri = 0, normal = (0, 0, 0)\<rparr>, \<lparr>tri = 0, normal = (0, 0, 0)\<rparr>])]"
  by (simp add: buildEdgeToTris_def numTris_def foldedTriangle_def processTriangle_def getVertex_def
      normal_foldedTriangle addToMap_addRec edgeKey_def string_of_nat_small digit_chars Let_def)

lemma extractEdges_foldedTriangle:
  "extractEdges foldedTriangle =
     [\<lparr>v0 = 0, v1 = 1, p0 = (0, 0, 0), p1 = (1, 0, 0), n0 = (0, 0, 0), n1 = (0, 0, 0),
       dihedralAngle = 90\<rparr>]"
proof -
  have "edgeFromEntry foldedTriangle
          (''0_1'', [\<lparr>tri = 0, normal = (0, 0, 0)\<rparr>, \<lparr>tri = 0, normal = (0, 0, 0)\<rparr>])
        = [\<lparr>v0 = 0, v1 = 1, p0 = (0, 0, 0), p1 = (1, 0, 0), n0 = (0, 0, 0), n1 = (0, 0, 0),
            dihedralAngle = 90\<rparr>]"
    by (simp add: edgeFromEntry_def parseInt_def is_digit_def digit_val_def
        foldedTriangle_def getVertex_def Let_def)
  then show ?thesis
    by (simp add: extractEdges_def buildEdgeToTris_foldedTriangle edgeFromEntry_def)
qed

lemma distances_from_origin:
  "edgeDistance \<lparr>point = (0, 0, 0), maxDistance = md\<rparr> hingeEdge = Fin 0"
  "edgeDistance \<lparr>point = (0, 0, 0), maxDistance = md\<rparr> liftedEdge = Fin 1"
  "edgeDistance \<lparr>point = (0, 0, 0), maxDistance = md\<rparr> farEdge = Fin 5"
proof -
  have c: "coordsWithin (2 ^ 400) (0, 0, 0)" "coordsWithin (2 ^ 400) (1, 0, 0)"
     "coordsWithin (2 ^ 400) (0, 1, 0)" "coordsWithin (2 ^ 400) (0, 2, 0)"
     "coordsWithin (2 ^ 400) (3, 4, 0)" "coordsWithin (2 ^ 400) (6, 8, 0)"
    by (simp_all add: coordsWithin_def)
  show "edgeDistance \<lparr>point = (0, 0, 0), maxDistance = md\<rparr> hingeEdge = Fin 0"
    by (simp add: edgeDistance_def hingeEdge_def pointToSegmentDistance_exact[OF c(1) c(1) c(2)])
       (simp add: exactDistance_def)
  show "edgeDistance \<lparr>point = (0, 0, 0), maxDistance = md\<rparr> liftedEdge = Fin 1"
    by (simp add: edgeDistance_def liftedEdge_def pointToSegmentDistance_exact[OF c(1) c(3) c(4)])
       (simp add: exactDistance_def)
  show "edgeDistance \<lparr>point = (0, 0, 0), maxDistance = md\<rparr> farEdge = Fin 5"
    by (simp add: edgeDistance_def farEdge_def pointToSegmentDistance_exact[OF c(1) c(5) c(6)])
       (simp add: exactDistance_def)
qed

lemma overflowing_distance:
  "pointToSegmentDistance (Fin 0, Fin (2 ^ 512), Fin 0) (Fin 0, Fin 0, Fin 0) (Fin 1, Fin 0, Fin 0)
     = PosInf"
proof -
  have ops:
    "js_sub (Fin 1) (Fin 0) = Fin 1" "js_sub (Fin 0) (Fin 0) = Fin 0"
    "js_sub (Fin (2 ^ 512)) (Fin 0) = Fin (2 ^ 512)"
    "js_mul (Fin 1) (Fin 1) = Fin 1" "js_mul (Fin 0) (Fin 0) = Fin 0"
    "js_mul (Fin 0) (Fin 1) = Fin 0" "js_mul (Fin (2 ^ 512)) (Fin 0) = Fin 0"
    "js_mul (Fin (2 ^ 512)) (Fin (2 ^ 512)) = PosInf"
    "js_add (Fin 1) (Fin 0) = Fin 1" "js_add (Fin 0) (Fin 0) = Fin 0"
    "js_add (Fin 0) PosInf = PosInf" "js_add PosInf (Fin 0) = PosInf"
    "js_lt (Fin 1) (Fin (1 / 10 ^ 12)) = False"
    "js_div (Fin 0) (Fin 1) = Fin 0" "js_min (Fin 1) (Fin 0) = Fin 0"
    "js_max (Fin 0) (Fin 0) = Fin 0" "js_sqrt PosInf = PosInf"
    by (simp_all add: js_sub_def fl_def overflowBound_def js_min_def js_max_def)
  show ?thesis
    by (simp only: pointToSegmentDistance_def Let_def prod.case ops if_False)
qed

lemma buildEdgeToTris_foldedPair:
  "map (\<lambda>p. (fst p, length (snd p))) (buildEdgeToTris foldedPair) = [(''0_0'', 2), (''0_1'', 4)]"
  by (simp add: buildEdgeToTris_def numTris_def foldedPair_def upt_0_2 processTriangle_def
      addToMap_addRec edgeKey_def string_of_nat_small digit_chars Let_def)

lemma length_extractEdges_foldedPair: "length (extractEdges foldedPair) = 1"
proof -
  have "length (filter (\<lambda>p. length (snd p) = 2) (buildEdgeToTris foldedPair))
        = length (filter (\<lambda>q. snd q = 2) (map (\<lambda>p. (fst p, length (snd p))) (buildEdgeToTris foldedPair)))"
    by (simp add: filter_map comp_def)
  then show ?thesis
    unfolding length_extractEdges buildEdgeToTris_foldedPair by simp
qed

lemma hingeTool_created:
  "createFilletCuttingTool (symbolicKernel hinge) hingeEdge 1 16 = Some hingeTool"
  by (simp add: createFilletCuttingTool_def hingeEdge_def symbolicKernel_def hingeTool_def Let_def)

lemma filletSelected_hinge:
  "filletSelected (symbolicKernel hinge) Input hingeOptions = [hingeEdge]"
  by (simp add: filletSelected_def symbolicKernel_def extractEdges_hinge hingeOptions_def
      selectByAngle_def hingeEdge_def)

lemma filletCuttingTools_hinge:
  "filletCuttingTools (symbolicKernel hinge) Input hingeOptions = [hingeTool]"
  unfolding filletCuttingTools_def filletSelected_hinge
  using hingeTool_created
  by (simp add: hingeOptions_def filletSegments_def) (simp add: hingeEdge_def symbolicKernel_def)

section \<open>The properties\<close>

subsection \<open>Angle selection\<close>

text \<open>
  Claim C1, amended. Angle selection keeps exactly the edges whose dihedral angle is
  at most \<open>180 - minAngle\<close>, and the selection shrinks as \<open>minAngle\<close> grows: for
  \<open>minAngle1 < minAngle2\<close> the edges selected with \<open>minAngle2\<close> are among those
  selected with \<open>minAngle1\<close>. (The claim states the inclusion the other way round.)
\<close>

theorem angle_selection_antitone:
  "set (selectEdges edges (Angle s)) = {e \<in> set edges. dihedralAngle e \<le> 180 - minAngle s} \<and>
   (minAngle s1 < minAngle s2 \<longrightarrow>
      set (selectEdges edges (Angle s2)) \<subseteq> set (selectEdges edges (Angle s1)))"
  by (auto simp add: selectByAngle_def)

text \<open>
  At the edge of the hinge (dihedral angle 90): \<open>minAngle = 100\<close> selects nothing,
  \<open>minAngle = 0\<close> selects the edge.
\<close>

theorem angle_selection_antitone_witness:
  "minAngle \<lparr>minAngle = 0\<rparr> < minAngle \<lparr>minAngle = 100\<rparr> \<and>
   set (selectEdges [hingeEdge] (Angle \<lparr>minAngle = 100\<rparr>))
     \<subseteq> set (selectEdges [hingeEdge] (Angle \<lparr>minAngle = 0\<rparr>)) \<and>
   set (selectEdges [hingeEdge] (Angle \<lparr>minAngle = 0\<rparr>)) = {hingeEdge}"
  using angle_selection_antitone[of "[hingeEdge]" "\<lparr>minAngle = 0\<rparr>" "\<lparr>minAngle = 0\<rparr>" "\<lparr>minAngle = 100\<rparr>"]
  by (auto simp add: hingeEdge_def)

text \<open>
  The inclusion as claim C1 states it fails at the same input: the edge is selected
  with \<open>minAngle = 0\<close> and not with \<open>minAngle = 100\<close>.
\<close>

theorem angle_selection_monotone_counterexample:
  "minAngle \<lparr>minAngle = 0\<rparr> < minAngle \<lparr>minAngle = 100\<rparr> \<and>
   \<not> set (selectEdges [hingeEdge] (Angle \<lparr>minAngle = 0\<rparr>))
       \<subseteq> set (selectEdges [hingeEdge] (Angle \<lparr>minAngle = 100\<rparr>))"
  by (simp add: selectByAngle_def hingeEdge_def)

subsection \<open>Point selection\<close>

text \<open>
  Claim C2, amended. For every edge list and every point selection, \<^verbatim>\<open>selectEdges\<close>
  returns at most one edge. The result is empty exactly when no edge has a finite
  computed distance that is \<^verbatim>\<open><= maxDistance\<close> (so in particular for the empty
  list); a returned edge is an edge of the list, its computed distance is finite and
  \<^verbatim>\<open><= maxDistance\<close>, and it is \<^verbatim>\<open><=\<close> the computed distance of every edge of the
  list whose distance is not NaN. When the coordinates of the query point and of the
  two end points have magnitude at most \<open>2^400\<close>, the computed distance is finite
  and is the distance from the query point to a point of the segment: the least such
  distance when the segment is at least \<open>10^-6\<close> long, and otherwise the distance to
  the first end point, which exceeds the distance to any point of the segment by less
  than \<open>10^-6\<close>.
\<close>

theorem point_selection_closest:
  "length (selectEdges edges (Point s)) \<le> 1 \<and>
   (selectEdges edges (Point s) = [] \<longleftrightarrow>
      \<not> (\<exists>e\<in>set edges. finiteNumber (edgeDistance s e) \<and> withinMaxDistance s (edgeDistance s e))) \<and>
   (\<forall>r\<in>set (selectEdges edges (Point s)).
      r \<in> set edges \<and> finiteNumber (edgeDistance s r) \<and> withinMaxDistance s (edgeDistance s r) \<and>
      (\<forall>e\<in>set edges. edgeDistance s e \<noteq> NaN \<longrightarrow> js_le (edgeDistance s r) (edgeDistance s e))) \<and>
   (\<forall>e. coordsWithin (2 ^ 400) (point s) \<and> coordsWithin (2 ^ 400) (p0 e) \<and>
        coordsWithin (2 ^ 400) (p1 e) \<longrightarrow>
      (\<exists>d. edgeDistance s e = Fin d \<and>
         (\<exists>t. 0 \<le> t \<and> t \<le> 1 \<and> d = dist3 (point s) (pointOnSegment (p0 e) (p1 e) t)) \<and>
         (if dist3 (p0 e) (p1 e) < 1 / 10 ^ 6
          then d = dist3 (point s) (p0 e) \<and>
               (\<forall>t. 0 \<le> t \<and> t \<le> 1 \<longrightarrow>
                  d < dist3 (point s) (pointOnSegment (p0 e) (p1 e) t) + 1 / 10 ^ 6)
          else (\<forall>t. 0 \<le> t \<and> t \<le> 1 \<longrightarrow>
                  d \<le> dist3 (point s) (pointOnSegment (p0 e) (p1 e) t)))))"
proof -
  let ?md = "case maxDistance s of Some m \<Rightarrow> Fin m | None \<Rightarrow> PosInf"
  let ?D = "\<lambda>e. pointToSegmentDistance (finVec (point s)) (finVec (p0 e)) (finVec (p1 e))"
  obtain ce cd where run: "selectByPoint_loop (finVec (point s)) ?md edges (None, PosInf) = (ce, cd)"
    by (cases "selectByPoint_loop (finVec (point s)) ?md edges (None, PosInf)")
  have res: "selectEdges edges (Point s) = (case ce of Some e \<Rightarrow> [e] | None \<Rightarrow> [])"
    using run by (simp add: selectByPoint_def)
  have "(ce = None \<and> cd = PosInf \<and>
             (\<forall>e\<in>set ([] @ edges). \<not> (finiteNumber (?D e) \<and> js_le (?D e) ?md)))
     \<or> (\<exists>e0. ce = Some e0 \<and> cd = ?D e0 \<and> e0 \<in> set ([] @ edges) \<and> finiteNumber (?D e0)
          \<and> js_le (?D e0) ?md
          \<and> (\<forall>e\<in>set ([] @ edges). ?D e \<noteq> NaN \<longrightarrow> js_le (?D e0) (?D e)))"
    by (rule selectByPoint_loop_inv[OF _ refl run]) simp
  then have inv: "(ce = None \<and> (\<forall>e\<in>set edges. \<not> (finiteNumber (edgeDistance s e) \<and> withinMaxDistance s (edgeDistance s e))))
     \<or> (\<exists>e0. ce = Some e0 \<and> e0 \<in> set edges \<and> finiteNumber (edgeDistance s e0) \<and> withinMaxDistance s (edgeDistance s e0)
          \<and> (\<forall>e\<in>set edges. edgeDistance s e \<noteq> NaN \<longrightarrow> js_le (edgeDistance s e0) (edgeDistance s e)))"
    unfolding withinMaxDistance_def edgeDistance_def by auto
  have sel: "length (selectEdges edges (Point s)) \<le> 1 \<and>
   (selectEdges edges (Point s) = [] \<longleftrightarrow>
      \<not> (\<exists>e\<in>set edges. finiteNumber (edgeDistance s e) \<and> withinMaxDistance s (edgeDistance s e))) \<and>
   (\<forall>r\<in>set (selectEdges edges (Point s)).
      r \<in> set edges \<and> finiteNumber (edgeDistance s r) \<and> withinMaxDistance s (edgeDistance s r) \<and>
      (\<forall>e\<in>set edges. edgeDistance s e \<noteq> NaN \<longrightarrow> js_le (edgeDistance s r) (edgeDistance s e)))"
    using inv unfolding res by (cases ce) auto
  show ?thesis
    using sel edgeDistance_geometry[of s] by blast
qed

text \<open>
  From the origin the three example edges are at distances 5, 1 and 0: within distance
  2 the nearest of the three is returned, the far edge alone gives nothing, and
  without a bound the far edge alone is returned. The point \<open>(1/2, 2, 0)\<close> projects
  to the middle of the edge from \<open>(0, 0, 0)\<close> to \<open>(1, 0, 0)\<close>, at distance 2.
\<close>

theorem point_selection_closest_witness:
  "selectEdges [farEdge, liftedEdge, hingeEdge] (Point \<lparr>point = (0, 0, 0), maxDistance = Some 2\<rparr>)
     = [hingeEdge] \<and>
   selectEdges [farEdge] (Point \<lparr>point = (0, 0, 0), maxDistance = Some 2\<rparr>) = [] \<and>
   selectEdges [farEdge] (Point \<lparr>point = (0, 0, 0), maxDistance = None\<rparr>) = [farEdge] \<and>
   edgeDistance \<lparr>point = (1 / 2, 2, 0), maxDistance = None\<rparr> hingeEdge = Fin 2"
proof -
  let ?s = "\<lparr>point = (0, 0, 0), maxDistance = Some 2\<rparr>"
  let ?u = "\<lparr>point = (0, 0, 0), maxDistance = None\<rparr>"
  let ?q = "\<lparr>point = (1 / 2, 2, 0), maxDistance = None\<rparr>"
  note d = distances_from_origin
  note A = point_selection_closest[of "[farEdge, liftedEdge, hingeEdge]" ?s]
  have a: "selectEdges [farEdge, liftedEdge, hingeEdge] (Point ?s) = [hingeEdge]"
    using A[THEN conjunct1] A[THEN conjunct2, THEN conjunct1]
      A[THEN conjunct2, THEN conjunct2, THEN conjunct1]
    by (cases "selectEdges [farEdge, liftedEdge, hingeEdge] (Point ?s)")
       (auto simp add: d withinMaxDistance_def)
  note B = point_selection_closest[of "[farEdge]" ?s]
  have b: "selectEdges [farEdge] (Point ?s) = []"
    using B[THEN conjunct2, THEN conjunct1]
    by (simp add: d withinMaxDistance_def)
  note C = point_selection_closest[of "[farEdge]" ?u]
  have c: "selectEdges [farEdge] (Point ?u) = [farEdge]"
    using C[THEN conjunct1] C[THEN conjunct2, THEN conjunct1]
      C[THEN conjunct2, THEN conjunct2, THEN conjunct1]
    by (cases "selectEdges [farEdge] (Point ?u)") (auto simp add: d withinMaxDistance_def)
  have long: "\<not> dist3 (p0 hingeEdge) (p1 hingeEdge) < 1 / 10 ^ 6"
    by (simp add: hingeEdge_def dist3_def)
  have on: "dist3 (point ?q) (pointOnSegment (p0 hingeEdge) (p1 hingeEdge) t) = sqrt ((1 / 2 - t)\<^sup>2 + 4)" for t
    by (simp add: hingeEdge_def dist3_def pointOnSegment_def)
  have co: "coordsWithin (2 ^ 400) (point ?q) \<and> coordsWithin (2 ^ 400) (p0 hingeEdge) \<and>
        coordsWithin (2 ^ 400) (p1 hingeEdge)"
    by (simp add: coordsWithin_def hingeEdge_def)
  note G = point_selection_closest[of "[hingeEdge]" ?q,
      THEN conjunct2, THEN conjunct2, THEN conjunct2, THEN spec, THEN mp, OF co]
  from G obtain dd where g1: "edgeDistance ?q hingeEdge = Fin dd"
    and g2: "\<exists>t. 0 \<le> t \<and> t \<le> 1 \<and> dd = dist3 (point ?q) (pointOnSegment (p0 hingeEdge) (p1 hingeEdge) t)"
    and g3: "if dist3 (p0 hingeEdge) (p1 hingeEdge) < 1 / 10 ^ 6
          then dd = dist3 (point ?q) (p0 hingeEdge) \<and>
               (\<forall>t. 0 \<le> t \<and> t \<le> 1 \<longrightarrow>
                  dd < dist3 (point ?q) (pointOnSegment (p0 hingeEdge) (p1 hingeEdge) t) + 1 / 10 ^ 6)
          else (\<forall>t. 0 \<le> t \<and> t \<le> 1 \<longrightarrow>
                  dd \<le> dist3 (point ?q) (pointOnSegment (p0 hingeEdge) (p1 hingeEdge) t))"
    by blast
  from g2 obtain t where g4: "dd = dist3 (point ?q) (pointOnSegment (p0 hingeEdge) (p1 hingeEdge) t)"
    by blast
  from g3 long have g5: "\<forall>t. 0 \<le> t \<and> t \<le> 1 \<longrightarrow>
                  dd \<le> dist3 (point ?q) (pointOnSegment (p0 hingeEdge) (p1 hingeEdge) t)"
    by (simp only: if_False)
  have "dd \<le> dist3 (point ?q) (pointOnSegment (p0 hingeEdge) (p1 hingeEdge) (1 / 2))"
    using g5 by simp
  then have le: "dd \<le> 2" unfolding on by simp
  have "sqrt 4 \<le> sqrt ((1 / 2 - t)\<^sup>2 + 4)"
    by (rule real_sqrt_le_mono) simp
  then have ge: "2 \<le> dd" unfolding g4 on by simp
  have e: "edgeDistance ?q hingeEdge = Fin 2"
    using g1 le ge by simp
  from a b c e show ?thesis by simp
qed

text \<open>
  The claim as worded (the result is empty if and only if no edge's distance is
  \<^verbatim>\<open><= maxDistance\<close>) fails when a distance overflows. From the query point
  \<open>(0, 2^512, 0)\<close> the squared distance to the edge from \<open>(0, 0, 0)\<close> to \<open>(1, 0, 0)\<close>
  is \<open>2^1024\<close>, which is \<^verbatim>\<open>Infinity\<close> as a double. With no \<^verbatim>\<open>maxDistance\<close> the
  distance \<^verbatim>\<open>Infinity\<close> is \<^verbatim>\<open><= Infinity\<close>, but it is not \<^verbatim>\<open>< Infinity\<close>, the
  initial \<^verbatim>\<open>closestDist\<close>, so nothing is returned.
\<close>

theorem point_selection_overflow_counterexample:
  "edgeDistance \<lparr>point = (0, 2 ^ 512, 0), maxDistance = None\<rparr> hingeEdge = PosInf \<and>
   withinMaxDistance \<lparr>point = (0, 2 ^ 512, 0), maxDistance = None\<rparr>
     (edgeDistance \<lparr>point = (0, 2 ^ 512, 0), maxDistance = None\<rparr> hingeEdge) \<and>
   selectEdges [hingeEdge] (Point \<lparr>point = (0, 2 ^ 512, 0), maxDistance = None\<rparr>) = []"
proof -
  have d: "edgeDistance \<lparr>point = (0, 2 ^ 512, 0), maxDistance = None\<rparr> hingeEdge = PosInf"
    unfolding edgeDistance_def hingeEdge_def finVec_def
    by (simp only: PointEdgeSelection.simps MeshEdge.simps prod.case overflowing_distance)
  have s: "selectEdges [hingeEdge] (Point \<lparr>point = (0, 2 ^ 512, 0), maxDistance = None\<rparr>) = []"
    using d unfolding edgeDistance_def by (simp add: selectByPoint_def)
  show ?thesis by (simp only: d s withinMaxDistance_def) simp
qed

subsection \<open>Which pairs are extracted\<close>

text \<open>
  Claim C3. The source states the same intent as the claim (``a pair of vertices
  shared by exactly 2 triangles'', line 44; ``exactly 2 adjacent triangles'', line
  111), and the code departs from it. On a mesh whose reads are defined and whose
  triangles each have three different indices, \<^verbatim>\<open>extractEdges\<close> returns an edge for
  the pair \<open>{a, b}\<close> if and only if the pair is an edge of exactly two triangles.
  But the code counts the entries pushed under a key, one for each side of each
  triangle. The single triangle \<open>(0, 0, 1)\<close> has the pair \<open>{0, 1}\<close> as an edge, and
  no other triangle has; its sides \<open>(0, 1)\<close> and \<open>(1, 0)\<close> push two entries of
  triangle 0 under the key \<open>0_1\<close>, and the pair is extracted.
\<close>

theorem extractEdges_departs_at_repeated_vertex:
  "(mesh_ok m \<and> nondegenerate m \<longrightarrow>
      ((\<exists>e\<in>set (extractEdges m). {v0 e, v1 e} = {a, b}) \<longleftrightarrow> trianglesWithEdge m a b = 2)) \<and>
   mesh_ok foldedTriangle \<and> triangles foldedTriangle = [(0, 0, 1)] \<and>
   trianglesWithEdge foldedTriangle 0 1 = 1 \<and>
   map (\<lambda>entry. (fst entry, map tri (snd entry))) (buildEdgeToTris foldedTriangle)
     = [(''0_0'', [0]), (''0_1'', [0, 0])] \<and>
   map (\<lambda>e. (v0 e, v1 e)) (extractEdges foldedTriangle) = [(0, 1)]"
proof -
  have g: "mesh_ok m \<and> nondegenerate m \<longrightarrow>
      ((\<exists>e\<in>set (extractEdges m). {v0 e, v1 e} = {a, b}) \<longleftrightarrow> trianglesWithEdge m a b = 2)"
    using extractEdges_pair_iff[of m a b] sideCount_nondegenerate[of m a b] by simp
  show ?thesis
    using g
    by (simp add: mesh_ok_foldedTriangle triangles_foldedTriangle trianglesWithEdge_foldedTriangle
        buildEdgeToTris_foldedTriangle extractEdges_foldedTriangle)
qed

text \<open>
  On the hinge the pair \<open>{0, 1}\<close> is shared by both triangles and is extracted; the
  pair \<open>{1, 2}\<close> is a boundary edge and is not.
\<close>

theorem extractEdges_departs_at_repeated_vertex_witness:
  "mesh_ok hinge \<and> nondegenerate hinge \<and>
   trianglesWithEdge hinge 0 1 = 2 \<and> (\<exists>e\<in>set (extractEdges hinge). {v0 e, v1 e} = {0, 1}) \<and>
   trianglesWithEdge hinge 1 2 = 1 \<and> \<not> (\<exists>e\<in>set (extractEdges hinge). {v0 e, v1 e} = {1, 2})"
proof -
  have a: "(\<exists>e\<in>set (extractEdges hinge). {v0 e, v1 e} = {0, 1}) \<longleftrightarrow> trianglesWithEdge hinge 0 1 = 2"
    using extractEdges_departs_at_repeated_vertex[of hinge 0 1, THEN conjunct1]
      mesh_ok_hinge nondegenerate_hinge by blast
  have b: "(\<exists>e\<in>set (extractEdges hinge). {v0 e, v1 e} = {1, 2}) \<longleftrightarrow> trianglesWithEdge hinge 1 2 = 2"
    using extractEdges_departs_at_repeated_vertex[of hinge 1 2, THEN conjunct1]
      mesh_ok_hinge nondegenerate_hinge by blast
  show ?thesis
    unfolding a b
    by (simp add: mesh_ok_hinge nondegenerate_hinge trianglesWithEdge_hinge)
qed

subsection \<open>The number of edges of a closed surface\<close>

text \<open>
  Claim C4, amended. For a mesh whose reads are defined, whose triangles each have
  three different indices, and in which every pair that occurs as a triangle edge
  occurs in exactly two triangles, the number of extracted edges is
  \<open>3 * numTris / 2\<close>, where \<open>numTris\<close> is a third of the length of the index array.
\<close>

theorem closed_surface_edge_count:
  assumes "mesh_ok m" and "nondegenerate m" and "closedSurface m"
  shows "real (length (extractEdges m)) = 3 * real (numTris m) / 2 \<and>
         numTris m = length (triVerts m) div 3"
proof -
  have "2 * length (extractEdges m) = 3 * numTris m"
    by (rule extractEdges_count[OF closedSurface_sideCount[OF assms(2,3)]])
  then have "2 * real (length (extractEdges m)) = 3 * real (numTris m)"
    by (metis of_nat_mult of_nat_numeral)
  then show ?thesis using numTris_mesh_ok[OF assms(1)] by simp
qed

text \<open>The pillow has two triangles and three extracted edges.\<close>

theorem closed_surface_edge_count_witness:
  "mesh_ok pillow \<and> nondegenerate pillow \<and> closedSurface pillow \<and>
   numTris pillow = 2 \<and> length (extractEdges pillow) = 3"
  using closed_surface_edge_count[OF mesh_ok_pillow nondegenerate_pillow closedSurface_pillow]
  by (simp add: mesh_ok_pillow nondegenerate_pillow closedSurface_pillow numTris_pillow)

text \<open>
  Claim C4 as stated fails at two copies of the triangle \<open>(0, 0, 1)\<close>: each of the
  pairs \<open>{0, 0}\<close> and \<open>{0, 1}\<close> occurs in exactly two triangles, but the key of
  \<open>{0, 1}\<close> collects four entries, and one edge is extracted, not three.
\<close>

theorem closed_surface_edge_count_counterexample:
  "mesh_ok foldedPair \<and> closedSurface foldedPair \<and>
   real (length (extractEdges foldedPair)) \<noteq> 3 * real (numTris foldedPair) / 2"
  by (simp add: mesh_ok_foldedPair closedSurface_foldedPair numTris_foldedPair length_extractEdges_foldedPair)

subsection \<open>The tools that are subtracted\<close>

text \<open>
  Claim C5. With a positive radius the orchestrator returns the input solid with the
  tools of \<^verbatim>\<open>cuttingTools\<close> subtracted one after the other, and every tool of that
  array was built by \<^verbatim>\<open>createFilletCuttingTool\<close> from a selected edge whose dihedral
  angle is strictly between 5 and 175, and has a volume above \<open>1e-9\<close>; so no tool
  with a volume below \<open>1e-9\<close> is subtracted.
\<close>

theorem fillet_subtracts_only_qualifying_tools:
  "(0 < radius options \<longrightarrow>
      filletWithManifold K mf options = Inr (subtractTools K mf (filletCuttingTools K mf options))) \<and>
   (\<forall>tool\<in>set (filletCuttingTools K mf options).
      (\<exists>edge\<in>set (filletSelected K mf options).
          5 < dihedralAngle edge \<and> dihedralAngle edge < 175 \<and>
          createFilletCuttingTool K edge (radius options) (filletSegments options) = Some tool) \<and>
      1 / 10 ^ 9 < volume K tool \<and> \<not> volume K tool < 1 / 10 ^ 9)"
proof (intro conjI impI ballI)
  assume "0 < radius options"
  then show "filletWithManifold K mf options = Inr (subtractTools K mf (filletCuttingTools K mf options))"
    by (rule fillet_result)
next
  fix tool assume "tool \<in> set (filletCuttingTools K mf options)"
  then have *: "\<exists>edge\<in>set (filletSelected K mf options). 5 < dihedralAngle edge \<and> dihedralAngle edge < 175 \<and>
      createFilletCuttingTool K edge (radius options) (filletSegments options) = Some tool \<and> 1 / 10 ^ 9 < volume K tool"
    unfolding filletCuttingTools_def using collectTools_sound[of tool K _ _ _ "[]"] by simp
  from * show "\<exists>edge\<in>set (filletSelected K mf options).
          5 < dihedralAngle edge \<and> dihedralAngle edge < 175 \<and>
          createFilletCuttingTool K edge (radius options) (filletSegments options) = Some tool" by blast
  from * show "1 / 10 ^ 9 < volume K tool" by blast
  then show "\<not> volume K tool < 1 / 10 ^ 9" by simp
qed

text \<open>
  Filleting the hinge: the one tool is the wedge minus the tube of the shared edge,
  and the result is the input with that tool subtracted.
\<close>

theorem fillet_subtracts_only_qualifying_tools_witness:
  "0 < radius hingeOptions \<and>
   filletCuttingTools (symbolicKernel hinge) Input hingeOptions = [hingeTool] \<and>
   filletWithManifold (symbolicKernel hinge) Input hingeOptions = Inr (Subtract Input hingeTool) \<and>
   1 / 10 ^ 9 < volume (symbolicKernel hinge) hingeTool"
  using fillet_subtracts_only_qualifying_tools[of hingeOptions "symbolicKernel hinge" Input]
  by (simp add: filletCuttingTools_hinge) (simp add: hingeOptions_def symbolicKernel_def)

subsection \<open>A radius that is not positive\<close>

text \<open>
  Claim C6. For every kernel, solid and options with \<open>radius \<le> 0\<close> the fillet
  operation throws the error of its first check, and its log of work is empty at that
  point: no edge has been extracted or selected, no tool has been built or measured,
  and nothing has been subtracted. Solids are values, so the input is as it was. The
  log belongs to the same function (its result is that of \<^verbatim>\<open>filletWithManifold\<close>),
  and it is not idle: with a positive radius it begins with the extraction of the
  edges of the input.
\<close>

theorem fillet_rejects_nonpositive_radius:
  "(radius options \<le> 0 \<longrightarrow>
      filletWithManifold K mf options = Inl (Error ''Fillet radius must be positive'') \<and>
      filletWithManifoldLogged K mf options = ([], Inl (Error ''Fillet radius must be positive''))) \<and>
   snd (filletWithManifoldLogged K mf options) = filletWithManifold K mf options \<and>
   (0 < radius options \<longrightarrow>
      (\<exists>more. fst (filletWithManifoldLogged K mf options) = CallExtractEdges mf # more))"
proof -
  have a: "radius options \<le> 0 \<longrightarrow>
      filletWithManifold K mf options = Inl (Error ''Fillet radius must be positive'') \<and>
      filletWithManifoldLogged K mf options = ([], Inl (Error ''Fillet radius must be positive''))"
    by (simp add: filletWithManifold_def filletWithManifoldLogged_def Let_def)
  show ?thesis
    using a filletWithManifoldLogged_result[of K mf options]
      filletWithManifoldLogged_starts[of options K mf]
    by blast
qed

text \<open>
  Radius 0 and radius -2 on the hinge: the error and an empty log. Radius 1 on the
  hinge: the log begins with the extraction.
\<close>

theorem fillet_rejects_nonpositive_radius_witness:
  "radius (hingeOptions\<lparr>radius := 0\<rparr>) \<le> 0 \<and>
   filletWithManifold (symbolicKernel hinge) Input (hingeOptions\<lparr>radius := 0\<rparr>)
     = Inl (Error ''Fillet radius must be positive'') \<and>
   filletWithManifoldLogged (symbolicKernel hinge) Input (hingeOptions\<lparr>radius := 0\<rparr>)
     = ([], Inl (Error ''Fillet radius must be positive'')) \<and>
   filletWithManifoldLogged (symbolicKernel hinge) Input (hingeOptions\<lparr>radius := - 2\<rparr>)
     = ([], Inl (Error ''Fillet radius must be positive'')) \<and>
   (\<exists>more. fst (filletWithManifoldLogged (symbolicKernel hinge) Input hingeOptions)
              = CallExtractEdges Input # more)"
proof -
  note a = fillet_rejects_nonpositive_radius[of "hingeOptions\<lparr>radius := 0\<rparr>" "symbolicKernel hinge" Input,
      THEN conjunct1]
  note b = fillet_rejects_nonpositive_radius[of "hingeOptions\<lparr>radius := - 2\<rparr>" "symbolicKernel hinge" Input,
      THEN conjunct1]
  note c = fillet_rejects_nonpositive_radius[of hingeOptions "symbolicKernel hinge" Input,
      THEN conjunct2, THEN conjunct2]
  have r: "0 < radius hingeOptions" by (simp add: hingeOptions_def)
  show ?thesis
    using a b c r by simp
qed

subsection \<open>Nothing to fillet\<close>

text \<open>
  Claim C7. For a positive radius, if \<^verbatim>\<open>extractEdges\<close> returns no edge or the
  selection returns none, the fillet operation returns the input solid itself, with
  nothing subtracted, and throws nothing.
\<close>

theorem fillet_returns_input_without_edges:
  "0 < radius options \<Longrightarrow>
   extractEdges (getMesh K mf) = [] \<or>
     selectEdges (extractEdges (getMesh K mf)) (selection options) = [] \<Longrightarrow>
   filletWithManifold K mf options = Inr mf"
  by (auto simp add: filletWithManifold_def Let_def)

text \<open>
  The mesh without triangles has no edge; on the hinge, \<open>minAngle = 170\<close> selects
  none of its edges. Both times the input comes back.
\<close>

theorem fillet_returns_input_without_edges_witness:
  "0 < radius hingeOptions \<and>
   extractEdges (getMesh (symbolicKernel emptyMesh) Input) = [] \<and>
   filletWithManifold (symbolicKernel emptyMesh) Input hingeOptions = Inr Input \<and>
   extractEdges (getMesh (symbolicKernel hinge) Input) \<noteq> [] \<and>
   selectEdges (extractEdges (getMesh (symbolicKernel hinge) Input))
     (selection (hingeOptions\<lparr>selection := Angle \<lparr>minAngle = 170\<rparr>\<rparr>)) = [] \<and>
   filletWithManifold (symbolicKernel hinge) Input
     (hingeOptions\<lparr>selection := Angle \<lparr>minAngle = 170\<rparr>\<rparr>) = Inr Input"
proof -
  have r: "0 < radius hingeOptions" "0 < radius (hingeOptions\<lparr>selection := Angle \<lparr>minAngle = 170\<rparr>\<rparr>)"
    by (simp_all add: hingeOptions_def)
  have e: "extractEdges (getMesh (symbolicKernel emptyMesh) Input) = []"
    by (simp add: symbolicKernel_def extractEdges_emptyMesh)
  have h: "extractEdges (getMesh (symbolicKernel hinge) Input) = [hingeEdge]"
    by (simp add: symbolicKernel_def extractEdges_hinge)
  have s: "selectEdges (extractEdges (getMesh (symbolicKernel hinge) Input))
     (selection (hingeOptions\<lparr>selection := Angle \<lparr>minAngle = 170\<rparr>\<rparr>)) = []"
    unfolding h by (simp add: selectByAngle_def hingeEdge_def)
  show ?thesis
    using fillet_returns_input_without_edges[OF r(1) disjI1[OF e]]
          fillet_returns_input_without_edges[OF r(2) disjI2[OF s]] s
    by (simp add: r e h)
qed

subsection \<open>Short paths\<close>

text \<open>
  Claim C8. \<^verbatim>\<open>pipeAlongPath\<close> and \<^verbatim>\<open>pipeAlongPathExtended\<close> throw if and only if the
  path has fewer than two points, and then the error of their first check. On a path
  of two or more points \<^verbatim>\<open>pipeAlongPath\<close> returns the union of the tube segments of
  the consecutive points of the path, each the hull of the spheres at its two points
  (one segment is returned as it is); \<^verbatim>\<open>pipeAlongPathExtended\<close> returns the same for
  the extended path.
\<close>

theorem pipeAlongPath_fails_iff_short:
  "((\<exists>e. pipeAlongPath K path r segs = Inl e) \<longleftrightarrow> length path < 2) \<and>
   ((\<exists>e. pipeAlongPathExtended K path r ext segs = Inl e) \<longleftrightarrow> length path < 2) \<and>
   (length path < 2 \<longrightarrow>
      pipeAlongPath K path r segs = Inl (Error ''Path must have at least 2 points'') \<and>
      pipeAlongPathExtended K path r ext segs = Inl (Error ''Path must have at least 2 points'')) \<and>
   (2 \<le> length path \<longrightarrow>
      pipeAlongPath K path r segs = Inr (unionOfSegments K (pathSegments K path r segs)) \<and>
      pipeAlongPathExtended K path r ext segs =
        Inr (unionOfSegments K (pathSegments K (extendedPath path r ext) r segs)))"
proof (cases "length path < 2")
  case True
  then show ?thesis by (simp add: pipeAlongPath_def pipeAlongPathExtended_def)
next
  case False
  then have len: "2 \<le> length path" by simp
  have len': "2 \<le> length (extendedPath path r ext)" by (simp add: length_extendedPath)
  have a: "pipeAlongPath K path r segs = Inr (unionOfSegments K (pathSegments K path r segs))"
    by (rule pipeAlongPath_result[OF len])
  have b: "pipeAlongPathExtended K path r ext segs =
        Inr (unionOfSegments K (pathSegments K (extendedPath path r ext) r segs))"
    using False pipeAlongPath_result[OF len'] by (simp add: pipeAlongPathExtended_def)
  show ?thesis using False len by (simp add: a b)
qed

text \<open>Paths of one, no, two and three points.\<close>

theorem pipeAlongPath_fails_iff_short_witness:
  "pipeAlongPath symbolicTubes [(0, 0, 0)] 1 None = Inl (Error ''Path must have at least 2 points'') \<and>
   pipeAlongPathExtended symbolicTubes [] 1 None None = Inl (Error ''Path must have at least 2 points'') \<and>
   pipeAlongPath symbolicTubes [(0, 0, 0), (10, 0, 0)] 1 None =
     Inr (HullSolids [Translate (Sphere 1 None) (0, 0, 0), Translate (Sphere 1 None) (10, 0, 0)]) \<and>
   pipeAlongPath symbolicTubes [(0, 0, 0), (10, 0, 0), (10, 5, 0)] 1 None =
     Inr (UnionAll
       [HullSolids [Translate (Sphere 1 None) (0, 0, 0), Translate (Sphere 1 None) (10, 0, 0)],
        HullSolids [Translate (Sphere 1 None) (10, 0, 0), Translate (Sphere 1 None) (10, 5, 0)]]) \<and>
   pipeAlongPathExtended symbolicTubes [(0, 0, 0), (10, 0, 0)] 1 None None =
     Inr (UnionAll
       [HullSolids [Translate (Sphere 1 None) (- (1 / 10), 0, 0), Translate (Sphere 1 None) (0, 0, 0)],
        HullSolids [Translate (Sphere 1 None) (0, 0, 0), Translate (Sphere 1 None) (10, 0, 0)],
        HullSolids [Translate (Sphere 1 None) (10, 0, 0), Translate (Sphere 1 None) (101 / 10, 0, 0)]])"
proof -
  have x: "extendedPath [(0, 0, 0), (10, 0, 0)] 1 None
           = [(- (1 / 10), 0, 0), (0, 0, 0), (10, 0, 0), (101 / 10, 0, 0)]"
    by (simp add: extendedPath_def normalize_def Let_def)
  show ?thesis
    using pipeAlongPath_fails_iff_short[of symbolicTubes "[(0, 0, 0)]" 1 None None]
          pipeAlongPath_fails_iff_short[of symbolicTubes "[]" 1 None None]
          pipeAlongPath_fails_iff_short[of symbolicTubes "[(0, 0, 0), (10, 0, 0)]" 1 None None]
          pipeAlongPath_fails_iff_short[of symbolicTubes "[(0, 0, 0), (10, 0, 0), (10, 5, 0)]" 1 None None]
    by (simp add: x pathSegments_def tubeSegment_def sphereAt_def unionOfSegments_def
        symbolicTubes_def symbolicKernel_def)
qed

subsection \<open>The dihedral angle\<close>



subsection \<open>The order of the two indices\<close>

text \<open>
  Claim C10, amended. For a mesh whose reads are defined, every extracted edge has
  \<open>v0 \<le> v1\<close>, and \<open>v0 < v1\<close> when every triangle has three different indices.
\<close>

theorem extracted_edge_ordered:
  assumes "mesh_ok m" and "e \<in> set (extractEdges m)"
  shows "v0 e \<le> v1 e \<and> (nondegenerate m \<longrightarrow> v0 e < v1 e)"
  using extractEdges_ordered[OF assms(2)] .

text \<open>The edge of the hinge runs from vertex 0 to vertex 1.\<close>

theorem extracted_edge_ordered_witness:
  "mesh_ok hinge \<and> nondegenerate hinge \<and> hingeEdge \<in> set (extractEdges hinge) \<and>
   v0 hingeEdge < v1 hingeEdge"
proof -
  have i: "hingeEdge \<in> set (extractEdges hinge)" by (simp add: extractEdges_hinge)
  show ?thesis
    using extracted_edge_ordered[OF mesh_ok_hinge i]
    by (simp add: mesh_ok_hinge nondegenerate_hinge i)
qed

text \<open>
  Claim C10 as stated, for every mesh, fails at the triangles \<open>(0, 0, 1)\<close> and
  \<open>(0, 0, 2)\<close>: the key of the side from vertex 0 to itself collects two entries and
  gives an edge with \<open>v0 = v1 = 0\<close>.
\<close>

theorem extracted_edge_strictly_ordered_counterexample:
  "mesh_ok loopPair \<and> (\<exists>e\<in>set (extractEdges loopPair). \<not> v0 e < v1 e)"
proof -
  have "\<exists>e\<in>set (extractEdges loopPair). {v0 e, v1 e} = {0, 0}"
    unfolding extractEdges_pair_iff by (rule sideCount_loopPair)
  then obtain e where "e \<in> set (extractEdges loopPair)" and "{v0 e, v1 e} = {0, 0}" by blast
  then have "e \<in> set (extractEdges loopPair) \<and> \<not> v0 e < v1 e" by auto
  then show ?thesis using mesh_ok_loopPair by blast
qed

end
